theory Spec2Isabelle
  imports Complex_Main
begin

section \<open>The Link Registry of tinylink\<close>

text \<open>
  The development embeds the request handlers that make up the Link Registry:
  \<^item> \<open>POST\<close> of \<open>app/api/links/route.ts\<close> (create), with its helpers \<open>isValidUrl\<close>,
    \<open>isValidCode\<close> and \<open>generateRandomCode\<close>;
  \<^item> \<open>GET\<close> of \<open>app/[code]/route.ts\<close> (resolve: redirect and count the click);
  \<^item> \<open>GET\<close> and \<open>DELETE\<close> of \<open>app/api/links/[code]/route.ts\<close> (get and delete), which the
    repository only excerpts in \<open>EXPLANATION.md\<close>.
  The handlers talk to the database through the Prisma client; the operations they call
  (\<open>findUnique\<close>, \<open>create\<close>, \<open>update\<close>, \<open>delete\<close>) are modelled on a list of rows, following the
  schema \<open>model Link\<close> and the SQL the documentation quotes for them.
\<close>

subsection \<open>Rows and the backing store\<close>

type_synonym time = int

text \<open>
  \<open>model Link\<close> of \<open>prisma/schema.prisma\<close>. The \<open>cuid()\<close> identifier is an opaque fresh
  value, taken from a counter. \<open>clicks\<close> is the column
  \<open>"clicks" INTEGER NOT NULL DEFAULT 0\<close> of the migration: a 32-bit integer, whose range the
  update below enforces.
\<close>

record link =
  link_id :: nat
  code :: string
  targetUrl :: string
  clicks :: int
  lastClicked :: "time option"
  createdAt :: time
  updatedAt :: time

record store =
  links :: "link list"
  next_id :: nat

text \<open>\<open>prisma.link.findUnique({ where: { code } })\<close>: the row with that code, or \<open>null\<close>.\<close>

definition findUnique :: "store \<Rightarrow> string \<Rightarrow> link option" where
  "findUnique st c = find (\<lambda>l. code l = c) (links st)"

text \<open>
  \<open>prisma.link.create({ data: { code, targetUrl } })\<close>: the schema's defaults fill the other
  columns (\<open>clicks = 0\<close>, \<open>lastClicked = null\<close>, \<open>createdAt = now()\<close>, \<open>updatedAt\<close> set at the
  write). The \<open>@unique\<close> constraint on \<open>code\<close> makes the call throw when the code is taken:
  the result is \<open>None\<close> then.
\<close>

definition store_create :: "store \<Rightarrow> time \<Rightarrow> string \<Rightarrow> string \<Rightarrow> (link \<times> store) option" where
  "store_create st now c url =
     (if findUnique st c \<noteq> None then None
      else
        (let l = \<lparr>link_id = next_id st, code = c, targetUrl = url, clicks = 0,
                  lastClicked = None, createdAt = now, updatedAt = now\<rparr>
         in Some (l, st\<lparr>links := links st @ [l], next_id := Suc (next_id st)\<rparr>)))"

text \<open>
  \<open>prisma.link.update({ where: { code }, data: { clicks: { increment: 1 }, lastClicked: new Date() } })\<close>,
  that is \<open>UPDATE Link SET clicks = clicks + 1, lastClicked = NOW() WHERE code = c\<close>: the
  increment is computed from the stored value, and \<open>@updatedAt\<close> refreshes \<open>updatedAt\<close>.
  The call throws when no row has the code, and when the incremented value does not fit
  the 32-bit column (integer out of range); the statement then changes no row (\<open>None\<close>).
\<close>

definition int4_max :: int where
  "int4_max = 2147483647"

text \<open>\<open>clicks_full st c\<close>: a row with the code holds a counter that cannot be incremented.\<close>

definition clicks_full :: "store \<Rightarrow> string \<Rightarrow> bool" where
  "clicks_full st c = list_ex (\<lambda>l. code l = c \<and> int4_max < clicks l + 1) (links st)"

definition record_click :: "time \<Rightarrow> link \<Rightarrow> link" where
  "record_click now l = l\<lparr>clicks := clicks l + 1, lastClicked := Some now, updatedAt := now\<rparr>"

definition store_update :: "store \<Rightarrow> time \<Rightarrow> string \<Rightarrow> store option" where
  "store_update st now c =
     (if findUnique st c = None then None
      else if clicks_full st c then None
      else Some (st\<lparr>links := map (\<lambda>l. if code l = c then record_click now l else l) (links st)\<rparr>))"

text \<open>
  \<open>prisma.link.delete({ where: { code } })\<close>, that is \<open>DELETE WHERE code = c\<close>; it throws
  when no row has the code (\<open>None\<close>).
\<close>

definition store_delete :: "store \<Rightarrow> string \<Rightarrow> store option" where
  "store_delete st c =
     (if findUnique st c = None then None
      else Some (st\<lparr>links := filter (\<lambda>l. code l \<noteq> c) (links st)\<rparr>))"

subsection \<open>Responses\<close>

text \<open>
  \<open>NextResponse.json(body, { status })\<close> with an error body, a link body or a message
  body, and \<open>NextResponse.redirect(url, { status })\<close>.
\<close>

datatype response =
    Json_error string nat
  | Json_link link nat
  | Json_message string nat
  | Redirect string nat

text \<open>
  The error kinds of the specification, read off a response as its section 6 maps them:
  400 is \<open>InvalidCode\<close> for the custom-code message and \<open>InvalidTarget\<close> otherwise, 409 is
  \<open>CodeConflict\<close>, 404 is \<open>NotFound\<close>, 500 is \<open>ExhaustedCodeSpace\<close> for the code-generation
  message and an unclassified \<open>StorageFailure\<close> otherwise.
\<close>

datatype outcome =
  Success | InvalidTarget | InvalidCode | CodeConflict | ExhaustedCodeSpace | NotFound | StorageFailure

definition outcome_of :: "response \<Rightarrow> outcome" where
  "outcome_of r =
     (case r of
        Json_error msg status \<Rightarrow>
          (if status = 400 then
             (if msg = ''Custom code must be 6-8 alphanumeric characters'' then InvalidCode
              else InvalidTarget)
           else if status = 409 then CodeConflict
           else if status = 404 then NotFound
           else if msg = ''Failed to generate unique code. Please try again.''
             then ExhaustedCodeSpace
           else StorageFailure)
      | _ \<Rightarrow> Success)"

subsection \<open>The helpers of \<open>app/api/links/route.ts\<close>\<close>

text \<open>
  \<open>new URL(string)\<close> is the platform's URL parser. It is a parameter of the model: a
  function that returns the parsed URL, or \<open>None\<close> where the constructor throws. Of the
  parsed URL only the scheme and the host (\<open>None\<close> for a null host) are kept.
\<close>

record url =
  url_scheme :: string
  url_host :: "string option"

type_synonym url_parser = "string \<Rightarrow> url option"

definition isValidUrl :: "url_parser \<Rightarrow> string \<Rightarrow> bool" where
  "isValidUrl parse s = (case parse s of Some u \<Rightarrow> True | None \<Rightarrow> False)"

definition ascii_upper_alpha :: "char \<Rightarrow> bool" where
  "ascii_upper_alpha c = (65 \<le> (of_char c :: nat) \<and> (of_char c :: nat) \<le> 90)"

definition ascii_lower_alpha :: "char \<Rightarrow> bool" where
  "ascii_lower_alpha c = (97 \<le> (of_char c :: nat) \<and> (of_char c :: nat) \<le> 122)"

definition ascii_digit :: "char \<Rightarrow> bool" where
  "ascii_digit c = (48 \<le> (of_char c :: nat) \<and> (of_char c :: nat) \<le> 57)"

text \<open>The character class \<open>[A-Za-z0-9]\<close>.\<close>

definition ascii_alphanumeric :: "char \<Rightarrow> bool" where
  "ascii_alphanumeric c = (ascii_upper_alpha c \<or> ascii_lower_alpha c \<or> ascii_digit c)"

text \<open>\<open>/^[A-Za-z0-9]{6,8}$/.test(code)\<close>; without the \<open>m\<close> flag \<open>$\<close> matches at the end only.\<close>

definition isValidCode :: "string \<Rightarrow> bool" where
  "isValidCode c = (6 \<le> length c \<and> length c \<le> 8 \<and> list_all ascii_alphanumeric c)"

definition chars :: string where
  "chars = ''ABCDEFGHIJKLMNOPQRSTUVWXYZabcdefghijklmnopqrstuvwxyz0123456789''"

text \<open>\<open>String.prototype.charAt\<close>: the empty string when the index is out of range.\<close>

definition charAt :: "string \<Rightarrow> int \<Rightarrow> string" where
  "charAt s i = (if 0 \<le> i \<and> i < int (length s) then [s ! nat i] else [])"

text \<open>
  \<open>Math.random()\<close> is a source of numbers: \<open>rnd k\<close> is what the \<open>k\<close>-th call of a request
  returns, and \<open>pos\<close> counts the calls made so far. \<open>generateRandomCode\<close> makes six calls and
  appends \<open>chars.charAt(Math.floor(Math.random() * chars.length))\<close> for each.
\<close>

type_synonym random_source = "nat \<Rightarrow> real"

definition random_char :: "random_source \<Rightarrow> nat \<Rightarrow> string" where
  "random_char rnd k = charAt chars \<lfloor>rnd k * real (length chars)\<rfloor>"

definition generateRandomCode :: "random_source \<Rightarrow> nat \<Rightarrow> string \<times> nat" where
  "generateRandomCode rnd pos =
     (foldl (\<lambda>c i. c @ random_char rnd (pos + i)) [] [0..<6], pos + 6)"

text \<open>The contract of \<open>Math.random()\<close>: every value lies in \<open>[0, 1)\<close>.\<close>

definition unit_interval :: "random_source \<Rightarrow> bool" where
  "unit_interval rnd = (\<forall>k. 0 \<le> rnd k \<and> rnd k < 1)"

subsection \<open>\<open>POST /api/links\<close>: create\<close>

text \<open>
  The request body after destructuring. \<open>targetUrl_in = None\<close> stands for a value that is
  missing or not a string (both take the first 400 branch); \<open>customCode = None\<close> for a
  missing code. A custom code that is present is a string. A request whose body is not
  JSON is answered 500 before the body is looked at and is not part of the model.
\<close>

record body =
  targetUrl_in :: "string option"
  customCode :: "string option"

definition maxAttempts :: nat where
  "maxAttempts = 10"

text \<open>
  The \<open>while (attempts < maxAttempts)\<close> loop. It returns the final \<open>attempts\<close>, the number of
  \<open>Math.random()\<close> calls made so far and the variable \<open>code\<close>.
\<close>

function gen_loop ::
  "random_source \<Rightarrow> store \<Rightarrow> nat \<Rightarrow> nat \<Rightarrow> string option \<Rightarrow> nat \<times> nat \<times> string option" where
  "gen_loop rnd st attempts pos c =
     (if attempts < maxAttempts then
        (if findUnique st (fst (generateRandomCode rnd pos)) = None
         then (attempts, snd (generateRandomCode rnd pos), Some (fst (generateRandomCode rnd pos)))
         else gen_loop rnd st (attempts + 1) (snd (generateRandomCode rnd pos))
                (Some (fst (generateRandomCode rnd pos))))
      else (attempts, pos, c))"
  by pat_completeness auto
termination
  by (relation "measure (\<lambda>(rnd, st, attempts, pos, c). maxAttempts - attempts)") auto

text \<open>
  JavaScript truthiness of the destructured \<open>customCode\<close>: a missing code and the empty
  string are falsy, every other string is truthy.
\<close>

definition truthy :: "string option \<Rightarrow> bool" where
  "truthy cc = (case cc of None \<Rightarrow> False | Some c \<Rightarrow> c \<noteq> [])"

text \<open>
  "Determine the code to use": the \<open>if (customCode) ... else ...\<close> statement. The result is
  an early response, or the value of the variable \<open>code\<close>, which starts as \<open>customCode\<close>.
\<close>

definition determine_code :: "random_source \<Rightarrow> store \<Rightarrow> string option \<Rightarrow> response + string option" where
  "determine_code rnd st cc =
     (if truthy cc then
        (case cc of
           None \<Rightarrow> Inr cc
         | Some c \<Rightarrow>
             if \<not> isValidCode c then
               Inl (Json_error ''Custom code must be 6-8 alphanumeric characters'' 400)
             else if findUnique st c \<noteq> None then
               Inl (Json_error ''This short code is already taken'' 409)
             else Inr cc)
      else
        (case gen_loop rnd st 0 0 cc of
           (attempts, pos, c') \<Rightarrow>
             if attempts \<ge> maxAttempts then
               Inl (Json_error ''Failed to generate unique code. Please try again.'' 500)
             else Inr c'))"

text \<open>
  The handler. Anything the database call throws is caught and answered with
  \<open>Failed to create link\<close>, 500; so is a \<open>code\<close> that is still undefined when the row is
  written.
\<close>

definition POST ::
  "url_parser \<Rightarrow> random_source \<Rightarrow> store \<Rightarrow> time \<Rightarrow> body \<Rightarrow> response \<times> store" where
  "POST parse rnd st now b =
     (case targetUrl_in b of
        None \<Rightarrow> (Json_error ''Target URL is required'' 400, st)
      | Some t \<Rightarrow>
          if t = [] then (Json_error ''Target URL is required'' 400, st)
          else if \<not> isValidUrl parse t then (Json_error ''Invalid URL format'' 400, st)
          else
            (case determine_code rnd st (customCode b) of
               Inl r \<Rightarrow> (r, st)
             | Inr None \<Rightarrow> (Json_error ''Failed to create link'' 500, st)
             | Inr (Some c) \<Rightarrow>
                 (case store_create st now c t of
                    None \<Rightarrow> (Json_error ''Failed to create link'' 500, st)
                  | Some (l, st') \<Rightarrow> (Json_link l 201, st'))))"

subsection \<open>\<open>GET /:code\<close>: resolve\<close>

text \<open>
  The handler of \<open>app/[code]/route.ts\<close> makes two database calls, each awaited: the lookup
  and the update. They are the two steps below; the handler is their composition. \<open>now\<close>
  is the time of the update. The redirect is built from the row that the lookup returned.
\<close>

definition GET_code_find :: "store \<Rightarrow> string \<Rightarrow> response + link" where
  "GET_code_find st c =
     (case findUnique st c of
        None \<Rightarrow> Inl (Json_error ''Link not found'' 404)
      | Some l \<Rightarrow> Inr l)"

definition GET_code_update :: "store \<Rightarrow> time \<Rightarrow> string \<Rightarrow> link \<Rightarrow> response \<times> store" where
  "GET_code_update st now c l =
     (case store_update st now c of
        None \<Rightarrow> (Json_error ''Internal server error'' 500, st)
      | Some st' \<Rightarrow> (Redirect (targetUrl l) 302, st'))"

definition GET_code :: "store \<Rightarrow> time \<Rightarrow> string \<Rightarrow> response \<times> store" where
  "GET_code st now c =
     (case GET_code_find st c of
        Inl r \<Rightarrow> (r, st)
      | Inr l \<Rightarrow> GET_code_update st now c l)"

subsection \<open>\<open>GET\<close> and \<open>DELETE /api/links/:code\<close>: get and delete\<close>

text \<open>
  \<open>GET\<close> of \<open>app/api/links/[code]/route.ts\<close>, as excerpted in \<open>EXPLANATION.md\<close>: a lookup
  and nothing else.
\<close>

definition GET_link :: "store \<Rightarrow> string \<Rightarrow> response \<times> store" where
  "GET_link st c =
     (case findUnique st c of
        None \<Rightarrow> (Json_error ''Not found'' 404, st)
      | Some l \<Rightarrow> (Json_link l 200, st))"

text \<open>
  Modelled from the spec: the \<open>DELETE\<close> handler of \<open>app/api/links/[code]/route.ts\<close> is
  missing from the sources. \<open>EXPLANATION.md\<close> excerpts only its call of
  \<open>prisma.link.delete\<close> and notes that the exception for a missing row is caught by a
  try-catch it does not show. The specification says: delete removes the Link
  permanently and fails with \<open>NotFound\<close> (404) if no live Link has that code; success is
  200 with a confirmation.
\<close>

definition DELETE_link :: "store \<Rightarrow> string \<Rightarrow> response \<times> store" where
  "DELETE_link st c =
     (case store_delete st c of
        None \<Rightarrow> (Json_error ''Link not found'' 404, st)
      | Some st' \<Rightarrow> (Json_message ''Link deleted successfully'' 200, st'))"

subsection \<open>Sequences of requests\<close>

text \<open>One request after the other, each running to completion.\<close>

datatype op =
    Create random_source time body
  | Resolve time string
  | Get string
  | Delete string

fun apply_op :: "url_parser \<Rightarrow> store \<Rightarrow> op \<Rightarrow> response \<times> store" where
  "apply_op parse st (Create rnd now b) = POST parse rnd st now b"
| "apply_op parse st (Resolve now c) = GET_code st now c"
| "apply_op parse st (Get c) = GET_link st c"
| "apply_op parse st (Delete c) = DELETE_link st c"

fun run :: "url_parser \<Rightarrow> store \<Rightarrow> op list \<Rightarrow> response list \<times> store" where
  "run parse st [] = ([], st)"
| "run parse st (x # xs) =
     (case apply_op parse st x of
        (r, st') \<Rightarrow> (case run parse st' xs of (rs, st'') \<Rightarrow> (r # rs, st'')))"

text \<open>The codes of the Links that a list of responses reports as created (status 201).\<close>

fun created_codes :: "response list \<Rightarrow> string list" where
  "created_codes [] = []"
| "created_codes (Json_link l status # rs) =
     (if status = 201 then code l # created_codes rs else created_codes rs)"
| "created_codes (r # rs) = created_codes rs"

text \<open>The invariant of the data model on codes: each is 6 to 8 alphanumeric characters.\<close>

definition codes_valid :: "store \<Rightarrow> bool" where
  "codes_valid st = list_all (\<lambda>l. isValidCode (code l)) (links st)"

subsection \<open>Concurrent resolutions\<close>

text \<open>
  A handler runs until its next \<open>await\<close>; between two database calls of one request, the
  calls of other requests may run. A \<open>GET /:code\<close> request in flight is before its lookup,
  between the lookup and the update (holding the row it read), or done.
\<close>

datatype request =
    Lookup string
  | Update string link
  | Done response

fun request_step :: "store \<Rightarrow> time \<Rightarrow> request \<Rightarrow> request \<times> store" where
  "request_step st now (Lookup c) =
     (case GET_code_find st c of
        Inl r \<Rightarrow> (Done r, st)
      | Inr l \<Rightarrow> (Update c l, st))"
| "request_step st now (Update c l) =
     (case GET_code_update st now c l of (r, st') \<Rightarrow> (Done r, st'))"
| "request_step st now (Done r) = (Done r, st)"

text \<open>
  An interleaving is a list of events: which request makes its next database call, and at
  what time.
\<close>

fun schedule :: "store \<Rightarrow> request list \<Rightarrow> (nat \<times> time) list \<Rightarrow> store \<times> request list" where
  "schedule st rs [] = (st, rs)"
| "schedule st rs ((i, now) # evs) =
     (if i < length rs then
        (case request_step st now (rs ! i) of
           (r', st') \<Rightarrow> schedule st' (rs[i := r']) evs)
      else schedule st rs evs)"

fun redirected :: "request \<Rightarrow> bool" where
  "redirected (Done (Redirect u status)) = True"
| "redirected r = False"

subsection \<open>A fragment of the URL parser\<close>

text \<open>
  For concrete inputs the parser parameter is instantiated with a fragment of the basic
  URL parser of the WHATWG URL Standard, which \<open>new URL(string)\<close> runs without a base URL:
  \<^item> scheme start state and scheme state: the input starts with an ASCII letter followed
    by letters, digits, \<open>+\<close>, \<open>-\<close> or \<open>.\<close> up to the first \<open>:\<close>; anything else is a failure,
    as there is no base URL;
  \<^item> a scheme that is not special and is not followed by \<open>/\<close>: opaque path state, which
    never fails; the host stays null;
  \<^item> a special scheme other than \<open>file\<close> followed by \<open>//\<close> and a domain of labels of
    lower-case letters separated by single dots, up to the end or to \<open>/\<close>, \<open>?\<close>, \<open>#\<close> or a
    backslash: the host is that domain, and the path, query and fragment states never fail.
  Where it returns \<open>Some\<close>, the standard parses the input to that scheme and host. Inputs
  outside the fragment (leading or trailing spaces and control characters, tabs and
  newlines, a scheme that is not special followed by \<open>/\<close>, a special scheme not followed by
  \<open>//\<close>, ports, credentials, other hosts, \<open>file\<close> URLs) are answered with \<open>None\<close>; the
  theorems below hold for every parser and do not depend on this choice, and the
  fragment is applied only to inputs it covers.
\<close>

definition ascii_alpha :: "char \<Rightarrow> bool" where
  "ascii_alpha c = (ascii_upper_alpha c \<or> ascii_lower_alpha c)"

definition ascii_lowercase :: "char \<Rightarrow> char" where
  "ascii_lowercase c = (if ascii_upper_alpha c then char_of (of_char c + (32::nat)) else c)"

fun scheme_state :: "string \<Rightarrow> string \<Rightarrow> (string \<times> string) option" where
  "scheme_state buffer [] = None"
| "scheme_state buffer (c # cs) =
     (if ascii_alphanumeric c \<or> c = CHR ''+'' \<or> c = CHR ''-'' \<or> c = CHR ''.''
      then scheme_state (buffer @ [ascii_lowercase c]) cs
      else if c = CHR '':'' then Some (buffer, cs)
      else None)"

definition scheme_start_state :: "string \<Rightarrow> (string \<times> string) option" where
  "scheme_start_state s =
     (case s of
        [] \<Rightarrow> None
      | c # cs \<Rightarrow> if ascii_alpha c then scheme_state [ascii_lowercase c] cs else None)"

definition special_schemes :: "string list" where
  "special_schemes = [''ftp'', ''file'', ''http'', ''https'', ''ws'', ''wss'']"

text \<open>\<open>plain_domain after_letter s\<close>: non-empty labels of lower-case letters, single dots between.\<close>

fun plain_domain :: "bool \<Rightarrow> string \<Rightarrow> bool" where
  "plain_domain after_letter [] = after_letter"
| "plain_domain after_letter (c # cs) =
     (if ascii_lower_alpha c then plain_domain True cs
      else if c = CHR ''.'' \<and> after_letter then plain_domain False cs
      else False)"

definition authority_end :: "char \<Rightarrow> bool" where
  "authority_end c = (c = CHR ''/'' \<or> c = CHR ''?'' \<or> c = CHR ''#'' \<or> c = CHR 0x5C)"

definition stripped_or_removed :: "string \<Rightarrow> bool" where
  "stripped_or_removed s =
     (s \<noteq> [] \<and>
      ((of_char (hd s) :: nat) \<le> 32 \<or> (of_char (last s) :: nat) \<le> 32 \<or>
       list_ex (\<lambda>c. c = CHR 0x09 \<or> c = CHR 0x0A \<or> c = CHR 0x0D) s))"

definition URL_basic :: url_parser where
  "URL_basic s =
     (if stripped_or_removed s then None
      else
        (case scheme_start_state s of
           None \<Rightarrow> None
         | Some (sch, rest) \<Rightarrow>
             if sch \<in> set special_schemes then
               (if sch \<noteq> ''file'' \<and> take 2 rest = ''//'' \<and>
                   plain_domain False (takeWhile (\<lambda>c. \<not> authority_end c) (drop 2 rest))
                then Some \<lparr>url_scheme = sch,
                           url_host = Some (takeWhile (\<lambda>c. \<not> authority_end c) (drop 2 rest))\<rparr>
                else None)
             else if take 1 rest = ''/'' then None
             else Some \<lparr>url_scheme = sch, url_host = None\<rparr>))"

subsection \<open>Notions used in the statements\<close>

text \<open>
  The \<open>j\<close>-th candidate of a request: what the \<open>j\<close>-th call of \<open>generateRandomCode\<close> returns when
  the loop is the only user of \<open>Math.random()\<close>, six calls per candidate.
\<close>

definition candidate :: "random_source \<Rightarrow> nat \<Rightarrow> string" where
  "candidate rnd j = fst (generateRandomCode rnd (6 * j))"

text \<open>A create request draws its random numbers from \<open>[0, 1)\<close>.\<close>

fun random_ok :: "op \<Rightarrow> bool" where
  "random_ok (Create rnd now b) = unit_interval rnd"
| "random_ok x = True"

text \<open>\<open>for_code c r\<close>: the request \<open>r\<close>, if still in flight, resolves the code \<open>c\<close>.\<close>

fun for_code :: "string \<Rightarrow> request \<Rightarrow> bool" where
  "for_code c (Lookup c') = (c' = c)"
| "for_code c (Update c' l) = (c' = c)"
| "for_code c (Done r) = True"

subsection \<open>Example data\<close>

definition example_link :: link where
  "example_link = \<lparr>link_id = 0, code = ''abc123'', targetUrl = ''https://example.com'',
     clicks = 4, lastClicked = None, createdAt = 5, updatedAt = 5\<rparr>"

definition example_store :: store where
  "example_store = \<lparr>links = [example_link], next_id = 1\<rparr>"

definition empty_store :: store where
  "empty_store = \<lparr>links = [], next_id = 0\<rparr>"

text \<open>A store whose Link has the largest counter the column holds.\<close>

definition full_link :: link where
  "full_link = \<lparr>link_id = 0, code = ''abc123'', targetUrl = ''https://example.com'',
     clicks = 2147483647, lastClicked = Some 7, createdAt = 5, updatedAt = 7\<rparr>"

definition full_store :: store where
  "full_store = \<lparr>links = [full_link], next_id = 1\<rparr>"

text \<open>A store that holds the code \<open>ffffff\<close>.\<close>

definition taken_store :: store where
  "taken_store = \<lparr>links = [\<lparr>link_id = 0, code = ''ffffff'', targetUrl = ''https://example.com'',
     clicks = 0, lastClicked = None, createdAt = 1, updatedAt = 1\<rparr>], next_id = 1\<rparr>"

text \<open>
  Two sources of random numbers: with the first every candidate is \<open>ffffff\<close>; with the
  second the first candidate is \<open>ffffff\<close> and the later ones are \<open>AAAAAA\<close>.
\<close>

definition example_random :: random_source where
  "example_random = (\<lambda>k. 1 / 2)"

definition second_try_random :: random_source where
  "second_try_random = (\<lambda>k. if k < 6 then 1 / 2 else 0)"

text \<open>Requests that follow a delete of \<open>abc123\<close>; the create generates the code \<open>ffffff\<close>.\<close>

definition after_ops :: "op list" where
  "after_ops =
     [Resolve 7 ''abc123'',
      Create example_random 8 \<lparr>targetUrl_in = Some ''https://example.com'', customCode = None\<rparr>,
      Get ''abc123'', Delete ''abc123'']"

definition after_link :: link where
  "after_link = \<lparr>link_id = 1, code = ''ffffff'', targetUrl = ''https://example.com'',
     clicks = 0, lastClicked = None, createdAt = 8, updatedAt = 8\<rparr>"

definition after_store :: store where
  "after_store = \<lparr>links = [after_link], next_id = 2\<rparr>"

text \<open>Two requests that both look the row up before either of them updates it.\<close>

definition lost_update_events :: "(nat \<times> time) list" where
  "lost_update_events = [(0, 10), (1, 11), (0, 12), (1, 13)]"

section \<open>Properties\<close>

subsection \<open>Lookups after a write\<close>

lemma code_record_click: "code (record_click now l) = code l"
  by (simp add: record_click_def)

lemma find_click:
  "find (\<lambda>l. code l = c') (map (\<lambda>l. if code l = c then record_click now l else l) xs)
     = (if c' = c then map_option (record_click now) (find (\<lambda>l. code l = c) xs)
        else find (\<lambda>l. code l = c') xs)"
  by (induction xs) (auto simp: code_record_click)

lemma findUnique_click:
  "findUnique (st\<lparr>links := map (\<lambda>l. if code l = c then record_click now l else l) (links st)\<rparr>) c'
     = (if c' = c then map_option (record_click now) (findUnique st c) else findUnique st c')"
  by (simp add: findUnique_def find_click)

lemma find_filter_code:
  "find (\<lambda>l. code l = c') (filter (\<lambda>l. code l \<noteq> c) xs)
     = (if c' = c then None else find (\<lambda>l. code l = c') xs)"
  by (induction xs) auto

lemma findUnique_delete:
  "findUnique (st\<lparr>links := filter (\<lambda>l. code l \<noteq> c) (links st)\<rparr>) c'
     = (if c' = c then None else findUnique st c')"
  by (simp add: findUnique_def find_filter_code)

lemma find_append_one:
  "find P (xs @ [l]) = (case find P xs of Some x \<Rightarrow> Some x | None \<Rightarrow> if P l then Some l else None)"
  by (induction xs) auto

subsection \<open>Resolve\<close>

text \<open>Where the codes are distinct, the rows with a code are the one row the lookup finds.\<close>

lemma clicks_full_found:
  assumes "distinct (map code (links st))" and "findUnique st c = Some l"
  shows "clicks_full st c \<longleftrightarrow> int4_max \<le> clicks l"
proof -
  from assms(2) have l: "l \<in> set (links st)" "code l = c"
    by (auto simp: findUnique_def find_Some_iff)
  from assms(1) have inj: "inj_on code (set (links st))"
    by (simp add: distinct_map)
  have only: "\<And>x. x \<in> set (links st) \<Longrightarrow> code x = c \<Longrightarrow> x = l"
    using inj l by (auto dest: inj_onD)
  show ?thesis
  proof
    assume "clicks_full st c"
    then obtain x where x: "x \<in> set (links st)" "code x = c" "int4_max < clicks x + 1"
      unfolding clicks_full_def list_ex_iff by blast
    from only [OF x(1,2)] x(3) show "int4_max \<le> clicks l" by simp
  next
    assume "int4_max \<le> clicks l"
    then have "int4_max < clicks l + 1" by simp
    with l show "clicks_full st c"
      unfolding clicks_full_def list_ex_iff by blast
  qed
qed

text \<open>
  Claim C2, amended. For every code and every state of the store: if no Link has the
  code, \<open>GET /:code\<close> answers 404 (\<open>NotFound\<close>) and the store is unchanged. If a Link has the
  code and the counter can be incremented within the 32-bit column, the handler redirects
  (302) to that Link's \<open>targetUrl\<close>, and afterwards the Link has \<open>clicks\<close> one higher,
  \<open>lastClicked\<close> and \<open>updatedAt\<close> equal to the time of the resolution and every other field
  as before; the rows with another code, the number of rows and the identifier counter
  are unchanged. If the counter cannot be incremented, the update is refused and the
  handler answers 500 with the store unchanged. Where codes are distinct, the counter
  cannot be incremented exactly when the Link's \<open>clicks\<close> is 2147483647 or more.
\<close>

theorem resolve_spec:
  "(findUnique st c = None \<longrightarrow>
      GET_code st now c = (Json_error ''Link not found'' 404, st) \<and>
      outcome_of (fst (GET_code st now c)) = NotFound) \<and>
   (\<forall>l. findUnique st c = Some l \<and> \<not> clicks_full st c \<longrightarrow>
      (\<exists>st'. GET_code st now c = (Redirect (targetUrl l) 302, st') \<and>
         findUnique st' c =
           Some (l\<lparr>clicks := clicks l + 1, lastClicked := Some now, updatedAt := now\<rparr>) \<and>
         (\<forall>c'. c' \<noteq> c \<longrightarrow> findUnique st' c' = findUnique st c') \<and>
         length (links st') = length (links st) \<and>
         (\<forall>i < length (links st). code (links st ! i) \<noteq> c \<longrightarrow> links st' ! i = links st ! i) \<and>
         next_id st' = next_id st)) \<and>
   (\<forall>l. findUnique st c = Some l \<and> clicks_full st c \<longrightarrow>
      GET_code st now c = (Json_error ''Internal server error'' 500, st)) \<and>
   (distinct (map code (links st)) \<longrightarrow>
      (\<forall>l. findUnique st c = Some l \<longrightarrow> (clicks_full st c \<longleftrightarrow> 2147483647 \<le> clicks l)))"
proof -
  have absent: "findUnique st c = None \<longrightarrow>
      GET_code st now c = (Json_error ''Link not found'' 404, st) \<and>
      outcome_of (fst (GET_code st now c)) = NotFound"
    by (simp add: GET_code_def GET_code_find_def outcome_of_def)
  have counted: "\<forall>l. findUnique st c = Some l \<and> \<not> clicks_full st c \<longrightarrow>
      (\<exists>st'. GET_code st now c = (Redirect (targetUrl l) 302, st') \<and>
         findUnique st' c =
           Some (l\<lparr>clicks := clicks l + 1, lastClicked := Some now, updatedAt := now\<rparr>) \<and>
         (\<forall>c'. c' \<noteq> c \<longrightarrow> findUnique st' c' = findUnique st c') \<and>
         length (links st') = length (links st) \<and>
         (\<forall>i < length (links st). code (links st ! i) \<noteq> c \<longrightarrow> links st' ! i = links st ! i) \<and>
         next_id st' = next_id st)"
  proof (intro allI impI)
    fix l
    assume "findUnique st c = Some l \<and> \<not> clicks_full st c"
    then have found: "findUnique st c = Some l" and room: "\<not> clicks_full st c" by simp_all
    let ?st' = "st\<lparr>links := map (\<lambda>l. if code l = c then record_click now l else l) (links st)\<rparr>"
    have run: "GET_code st now c = (Redirect (targetUrl l) 302, ?st')"
      using found room
      by (simp add: GET_code_def GET_code_find_def GET_code_update_def store_update_def)
    have row: "findUnique ?st' c =
        Some (l\<lparr>clicks := clicks l + 1, lastClicked := Some now, updatedAt := now\<rparr>)"
      using found by (simp add: findUnique_click record_click_def)
    have others: "\<forall>c'. c' \<noteq> c \<longrightarrow> findUnique ?st' c' = findUnique st c'"
      by (simp add: findUnique_click)
    have same: "\<forall>i < length (links st). code (links st ! i) \<noteq> c \<longrightarrow> links ?st' ! i = links st ! i"
      by simp
    show "\<exists>st'. GET_code st now c = (Redirect (targetUrl l) 302, st') \<and>
           findUnique st' c =
             Some (l\<lparr>clicks := clicks l + 1, lastClicked := Some now, updatedAt := now\<rparr>) \<and>
           (\<forall>c'. c' \<noteq> c \<longrightarrow> findUnique st' c' = findUnique st c') \<and>
           length (links st') = length (links st) \<and>
           (\<forall>i < length (links st). code (links st ! i) \<noteq> c \<longrightarrow> links st' ! i = links st ! i) \<and>
           next_id st' = next_id st"
      using run row others same by (intro exI[of _ ?st']) simp
  qed
  have refused: "\<forall>l. findUnique st c = Some l \<and> clicks_full st c \<longrightarrow>
      GET_code st now c = (Json_error ''Internal server error'' 500, st)"
    by (simp add: GET_code_def GET_code_find_def GET_code_update_def store_update_def)
  have full: "distinct (map code (links st)) \<longrightarrow>
      (\<forall>l. findUnique st c = Some l \<longrightarrow> (clicks_full st c \<longleftrightarrow> 2147483647 \<le> clicks l))"
  proof (intro impI allI)
    fix l
    assume "distinct (map code (links st))" and "findUnique st c = Some l"
    then have "clicks_full st c \<longleftrightarrow> int4_max \<le> clicks l"
      by (rule clicks_full_found)
    then show "clicks_full st c \<longleftrightarrow> 2147483647 \<le> clicks l"
      by (simp only: int4_max_def)
  qed
  show ?thesis
    by (rule conjI [OF absent conjI [OF counted conjI [OF refused full]]])
qed

theorem resolve_spec_witness:
  "findUnique example_store ''zzzzzz'' = None \<and>
   GET_code example_store 9 ''zzzzzz'' = (Json_error ''Link not found'' 404, example_store) \<and>
   findUnique example_store ''abc123'' = Some example_link \<and> \<not> clicks_full example_store ''abc123'' \<and>
   (\<exists>st'. GET_code example_store 9 ''abc123'' = (Redirect ''https://example.com'' 302, st') \<and>
      findUnique st' ''abc123'' =
        Some (example_link\<lparr>clicks := 5, lastClicked := Some 9, updatedAt := 9\<rparr>)) \<and>
   findUnique full_store ''abc123'' = Some full_link \<and> clicks_full full_store ''abc123'' \<and>
   GET_code full_store 9 ''abc123'' = (Json_error ''Internal server error'' 500, full_store) \<and>
   distinct (map code (links full_store)) \<and> 2147483647 \<le> clicks full_link"
proof -
  have absent: "findUnique example_store ''zzzzzz'' = None"
    by (simp add: findUnique_def example_store_def example_link_def)
  have present: "findUnique example_store ''abc123'' = Some example_link"
    by (simp add: findUnique_def example_store_def example_link_def)
  have room: "\<not> clicks_full example_store ''abc123''"
    by (simp add: clicks_full_def int4_max_def example_store_def example_link_def)
  have url: "targetUrl example_link = ''https://example.com''" and n: "clicks example_link = 4"
    by (simp_all add: example_link_def)
  have present_full: "findUnique full_store ''abc123'' = Some full_link"
    by (simp add: findUnique_def full_store_def full_link_def)
  have one: "distinct (map code (links full_store))"
    by (simp add: full_store_def)
  from resolve_spec [of example_store "''zzzzzz''" 9] absent
  have miss: "GET_code example_store 9 ''zzzzzz'' = (Json_error ''Link not found'' 404, example_store)"
    by blast
  from resolve_spec [of example_store "''abc123''" 9] present room
  have "\<exists>st'. GET_code example_store 9 ''abc123'' = (Redirect (targetUrl example_link) 302, st') \<and>
      findUnique st' ''abc123'' =
        Some (example_link\<lparr>clicks := clicks example_link + 1, lastClicked := Some 9,
                updatedAt := 9\<rparr>)"
    by blast
  then have hit: "\<exists>st'. GET_code example_store 9 ''abc123'' = (Redirect ''https://example.com'' 302, st') \<and>
      findUnique st' ''abc123'' =
        Some (example_link\<lparr>clicks := 5, lastClicked := Some 9, updatedAt := 9\<rparr>)"
    by (simp add: url n)
  have top: "2147483647 \<le> clicks full_link"
    by (simp add: full_link_def)
  from resolve_spec [of full_store "''abc123''" 9] present_full one top
  have full: "clicks_full full_store ''abc123''"
    by blast
  from resolve_spec [of full_store "''abc123''" 9] present_full full
  have refused: "GET_code full_store 9 ''abc123'' = (Json_error ''Internal server error'' 500, full_store)"
    by blast
  from absent miss present room hit present_full full refused one top show ?thesis by blast
qed

text \<open>
  The statement for every state fails where the counter is at the top of the column's
  range: the Link exists, and the resolution answers 500 and leaves \<open>clicks\<close> as it was.
\<close>

theorem resolve_spec_counterexample:
  "findUnique full_store ''abc123'' = Some full_link \<and>
   clicks full_link = 2147483647 \<and>
   GET_code full_store 9 ''abc123'' = (Json_error ''Internal server error'' 500, full_store)"
  by code_simp

lemma findUnique_append:
  "findUnique (st\<lparr>links := links st @ [l], next_id := n\<rparr>) c =
     (case findUnique st c of Some x \<Rightarrow> Some x | None \<Rightarrow> if code l = c then Some l else None)"
  by (simp add: findUnique_def find_append_one)

lemma findUnique_Some_code: "findUnique st c = Some l \<Longrightarrow> l \<in> set (links st) \<and> code l = c"
  by (auto simp: findUnique_def find_Some_iff)

lemma codes_valid_found: "codes_valid st \<Longrightarrow> findUnique st c \<noteq> None \<Longrightarrow> isValidCode c"
  by (auto simp: codes_valid_def list_all_iff dest!: findUnique_Some_code)

subsection \<open>Create: unfolding the handler\<close>

lemma POST_valid_target:
  "t \<noteq> [] \<Longrightarrow> isValidUrl parse t \<Longrightarrow>
   POST parse rnd st now \<lparr>targetUrl_in = Some t, customCode = cc\<rparr> =
     (case determine_code rnd st cc of
        Inl r \<Rightarrow> (r, st)
      | Inr None \<Rightarrow> (Json_error ''Failed to create link'' 500, st)
      | Inr (Some c) \<Rightarrow>
          (case store_create st now c t of
             None \<Rightarrow> (Json_error ''Failed to create link'' 500, st)
           | Some (l, st') \<Rightarrow> (Json_link l 201, st')))"
  by (simp add: POST_def)

lemma determine_code_custom:
  "c \<noteq> [] \<Longrightarrow> determine_code rnd st (Some c) =
     (if \<not> isValidCode c then
        Inl (Json_error ''Custom code must be 6-8 alphanumeric characters'' 400)
      else if findUnique st c \<noteq> None then
        Inl (Json_error ''This short code is already taken'' 409)
      else Inr (Some c))"
  by (simp add: determine_code_def truthy_def)

lemma isValidCode_nonempty: "isValidCode c \<Longrightarrow> c \<noteq> []"
  by (auto simp: isValidCode_def)

text \<open>A create leaves the store as it was, or appends the Link it returns.\<close>

lemma POST_cases:
  assumes "POST parse rnd st now b = (r, st')"
  shows "st' = st \<or>
    (\<exists>l. r = Json_link l 201 \<and> findUnique st (code l) = None \<and>
       st' = st\<lparr>links := links st @ [l], next_id := Suc (next_id st)\<rparr>)"
  using assms
  by (auto simp: POST_def store_create_def Let_def
      split: option.splits if_splits sum.splits prod.splits)

lemma example_url: "''https://example.com'' \<noteq> [] \<and> isValidUrl URL_basic ''https://example.com''"
  by code_simp

subsection \<open>Delete\<close>

lemma DELETE_link_success:
  "outcome_of (fst (DELETE_link st c)) = Success \<longleftrightarrow> findUnique st c \<noteq> None"
  by (auto simp: DELETE_link_def store_delete_def outcome_of_def)

lemma DELETE_link_absent_after:
  "findUnique (snd (DELETE_link st c)) c = None"
  by (auto simp: DELETE_link_def store_delete_def findUnique_delete)

text \<open>
  Claim C7. Whenever no Link has the code, delete fails with \<open>NotFound\<close> (404) and leaves
  the store unchanged; and a second delete of the same code right after a successful one
  fails with \<open>NotFound\<close> too, leaving the store unchanged.
\<close>

theorem delete_not_found:
  "(findUnique st c = None \<longrightarrow>
      DELETE_link st c = (Json_error ''Link not found'' 404, st) \<and>
      outcome_of (fst (DELETE_link st c)) = NotFound) \<and>
   (outcome_of (fst (DELETE_link st c)) = Success \<longrightarrow>
      outcome_of (fst (DELETE_link (snd (DELETE_link st c)) c)) = NotFound \<and>
      snd (DELETE_link (snd (DELETE_link st c)) c) = snd (DELETE_link st c))"
proof (intro conjI impI)
  assume "findUnique st c = None"
  then show "DELETE_link st c = (Json_error ''Link not found'' 404, st)"
    by (simp add: DELETE_link_def store_delete_def)
  then show "outcome_of (fst (DELETE_link st c)) = NotFound"
    by (simp add: outcome_of_def)
next
  have gone: "findUnique (snd (DELETE_link st c)) c = None"
    by (rule DELETE_link_absent_after)
  then show "outcome_of (fst (DELETE_link (snd (DELETE_link st c)) c)) = NotFound"
    by (simp add: DELETE_link_def store_delete_def outcome_of_def)
  from gone show "snd (DELETE_link (snd (DELETE_link st c)) c) = snd (DELETE_link st c)"
    by (simp add: DELETE_link_def store_delete_def)
qed

theorem delete_not_found_witness:
  "findUnique example_store ''zzzzzz'' = None \<and>
   outcome_of (fst (DELETE_link example_store ''zzzzzz'')) = NotFound \<and>
   outcome_of (fst (DELETE_link example_store ''abc123'')) = Success \<and>
   outcome_of (fst (DELETE_link (snd (DELETE_link example_store ''abc123'')) ''abc123'')) = NotFound"
proof -
  have absent: "findUnique example_store ''zzzzzz'' = None"
    by (simp add: findUnique_def example_store_def example_link_def)
  have ok: "outcome_of (fst (DELETE_link example_store ''abc123'')) = Success"
    by (simp add: DELETE_link_def store_delete_def findUnique_def example_store_def
        example_link_def outcome_of_def)
  from delete_not_found [of example_store "''zzzzzz''"] absent
  have first: "outcome_of (fst (DELETE_link example_store ''zzzzzz'')) = NotFound"
    by blast
  from delete_not_found [of example_store "''abc123''"] ok
  have second: "outcome_of (fst (DELETE_link (snd (DELETE_link example_store ''abc123'')) ''abc123'')) = NotFound"
    by blast
  from absent ok first second show ?thesis by simp
qed

subsection \<open>After a delete\<close>

text \<open>A request does not bring a code into the store unless it reports a Link created with it.\<close>

lemma apply_op_absent:
  assumes "findUnique st c = None" and "apply_op parse st x = (r, st')"
    and "c \<notin> set (created_codes [r])"
  shows "findUnique st' c = None"
proof (cases x)
  case (Create rnd now b)
  with assms(2) have "POST parse rnd st now b = (r, st')" by simp
  from POST_cases [OF this] show ?thesis
  proof
    assume "st' = st" with assms(1) show ?thesis by simp
  next
    assume "\<exists>l. r = Json_link l 201 \<and> findUnique st (code l) = None \<and>
       st' = st\<lparr>links := links st @ [l], next_id := Suc (next_id st)\<rparr>"
    then obtain l where l: "r = Json_link l 201"
      "st' = st\<lparr>links := links st @ [l], next_id := Suc (next_id st)\<rparr>" by blast
    with assms(3) have "code l \<noteq> c" by simp
    with l assms(1) show ?thesis by (simp add: findUnique_append)
  qed
next
  case (Resolve now c0)
  with assms(1,2) show ?thesis
    by (auto simp: GET_code_def GET_code_find_def GET_code_update_def store_update_def
        findUnique_click split: option.splits if_splits)
next
  case (Get c0)
  with assms(1,2) show ?thesis
    by (auto simp: GET_link_def split: option.splits)
next
  case (Delete c0)
  with assms(1,2) show ?thesis
    by (auto simp: DELETE_link_def store_delete_def findUnique_delete split: option.splits if_splits)
qed

lemma created_codes_Cons:
  "set (created_codes (r # rs)) = set (created_codes [r]) \<union> set (created_codes rs)"
  by (cases r) auto

lemma run_absent:
  "findUnique st c = None \<Longrightarrow> run parse st xs = (rs, st') \<Longrightarrow> c \<notin> set (created_codes rs)
   \<Longrightarrow> findUnique st' c = None"
proof (induction xs arbitrary: st rs st')
  case Nil
  then show ?case by simp
next
  case (Cons x xs)
  obtain r st1 where step: "apply_op parse st x = (r, st1)" by (cases "apply_op parse st x")
  obtain rs1 st2 where rest: "run parse st1 xs = (rs1, st2)" by (cases "run parse st1 xs")
  from Cons.prems(2) step rest have eq: "rs = r # rs1" "st' = st2" by simp_all
  from Cons.prems(3) eq have r: "c \<notin> set (created_codes [r])" and rs1: "c \<notin> set (created_codes rs1)"
    using created_codes_Cons [of r rs1] by auto
  from apply_op_absent [OF Cons.prems(1) step r] have "findUnique st1 c = None" .
  from Cons.IH [OF this rest rs1] eq show ?case by simp
qed

text \<open>
  Claim C3. Let the codes of the store be well-formed (6 to 8 alphanumeric characters, the
  invariant of the data model) and let delete of a code succeed. After any further
  requests (creates, resolves, gets, deletes, on any codes) none of which reports a Link
  created with that code: resolve of the code fails with \<open>NotFound\<close> and changes nothing,
  get of the code fails with \<open>NotFound\<close>, and a create with a valid target URL and that
  code as requested code succeeds (201), appending exactly the returned Link, which
  carries the code.
\<close>

theorem delete_then_absent:
  assumes "codes_valid st"
    and "outcome_of (fst (DELETE_link st c)) = Success"
    and "run parse (snd (DELETE_link st c)) xs = (rs, st2)"
    and "c \<notin> set (created_codes rs)"
  shows "outcome_of (fst (GET_code st2 now c)) = NotFound \<and> snd (GET_code st2 now c) = st2 \<and>
         outcome_of (fst (GET_link st2 c)) = NotFound \<and> snd (GET_link st2 c) = st2 \<and>
         (t \<noteq> [] \<and> isValidUrl parse t \<longrightarrow>
            (\<exists>l. POST parse rnd st2 now \<lparr>targetUrl_in = Some t, customCode = Some c\<rparr> =
                    (Json_link l 201, st2\<lparr>links := links st2 @ [l], next_id := Suc (next_id st2)\<rparr>) \<and>
                  code l = c \<and> targetUrl l = t))"
proof -
  have "findUnique (snd (DELETE_link st c)) c = None"
    by (rule DELETE_link_absent_after)
  from run_absent [OF this assms(3,4)] have gone: "findUnique st2 c = None" .
  from assms(2) have "findUnique st c \<noteq> None"
    by (simp add: DELETE_link_success)
  with assms(1) have valid: "isValidCode c"
    by (rule codes_valid_found)
  then have ne: "c \<noteq> []" by (rule isValidCode_nonempty)
  have resolve: "GET_code st2 now c = (Json_error ''Link not found'' 404, st2)"
    using gone by (simp add: GET_code_def GET_code_find_def)
  have get: "GET_link st2 c = (Json_error ''Not found'' 404, st2)"
    using gone by (simp add: GET_link_def)
  have create: "t \<noteq> [] \<and> isValidUrl parse t \<longrightarrow>
            (\<exists>l. POST parse rnd st2 now \<lparr>targetUrl_in = Some t, customCode = Some c\<rparr> =
                    (Json_link l 201, st2\<lparr>links := links st2 @ [l], next_id := Suc (next_id st2)\<rparr>) \<and>
                  code l = c \<and> targetUrl l = t)"
    using gone valid ne
    by (simp add: POST_valid_target determine_code_custom store_create_def Let_def)
  from resolve get create show ?thesis
    by (simp add: outcome_of_def)
qed

theorem delete_then_absent_witness:
  "codes_valid example_store \<and>
   outcome_of (fst (DELETE_link example_store ''abc123'')) = Success \<and>
   run URL_basic (snd (DELETE_link example_store ''abc123'')) after_ops =
     ([Json_error ''Link not found'' 404, Json_link after_link 201,
       Json_error ''Not found'' 404, Json_error ''Link not found'' 404],
      after_store) \<and>
   outcome_of (fst (GET_code after_store 9 ''abc123'')) = NotFound \<and>
   outcome_of (fst (GET_link after_store ''abc123'')) = NotFound \<and>
   (\<exists>l. POST URL_basic example_random after_store 9
           \<lparr>targetUrl_in = Some ''https://example.com'', customCode = Some ''abc123''\<rparr> =
           (Json_link l 201, \<lparr>links = [after_link, l], next_id = 3\<rparr>) \<and> code l = ''abc123'')"
proof -
  let ?rs = "[Json_error ''Link not found'' 404, Json_link after_link 201,
       Json_error ''Not found'' 404, Json_error ''Link not found'' 404]"
  have valid: "codes_valid example_store"
    by code_simp
  have ok: "outcome_of (fst (DELETE_link example_store ''abc123'')) = Success"
    by code_simp
  have ran: "run URL_basic (snd (DELETE_link example_store ''abc123'')) after_ops = (?rs, after_store)"
    by code_simp
  have none: "''abc123'' \<notin> set (created_codes ?rs)"
    by (simp add: after_link_def)
  from delete_then_absent [OF valid ok ran none, of 9 "''https://example.com''" example_random]
    example_url
  have "outcome_of (fst (GET_code after_store 9 ''abc123'')) = NotFound \<and>
   outcome_of (fst (GET_link after_store ''abc123'')) = NotFound \<and>
   (\<exists>l. POST URL_basic example_random after_store 9
           \<lparr>targetUrl_in = Some ''https://example.com'', customCode = Some ''abc123''\<rparr> =
           (Json_link l 201, \<lparr>links = [after_link, l], next_id = 3\<rparr>) \<and> code l = ''abc123'')"
    by (auto simp: after_store_def)
  with valid ok ran show ?thesis by simp
qed

subsection \<open>Generated codes\<close>

declare gen_loop.simps [simp del]

lemma length_chars: "length chars = 62"
  by (simp add: chars_def)

lemma chars_alphanumeric: "list_all ascii_alphanumeric chars"
  by code_simp

lemma distinct_chars: "distinct chars"
  by code_simp

lemma random_char_in:
  assumes "unit_interval rnd"
  shows "\<exists>ch \<in> set chars. random_char rnd k = [ch]"
proof -
  from assms have r: "0 \<le> rnd k" "rnd k < 1"
    by (simp_all add: unit_interval_def)
  let ?i = "\<lfloor>rnd k * real (length chars)\<rfloor>"
  have lo: "0 \<le> ?i"
    using r by (simp add: length_chars)
  have "rnd k * 62 < 62"
    using r by simp
  then have hi: "?i < 62"
    by (simp add: length_chars floor_less_iff)
  from lo hi have "nat ?i < length chars"
    unfolding length_chars by linarith
  then have "chars ! nat ?i \<in> set chars"
    by (rule nth_mem)
  moreover have "random_char rnd k = [chars ! nat ?i]"
    using lo hi by (simp add: random_char_def charAt_def length_chars)
  ultimately show ?thesis by blast
qed

lemma upt_6: "[0..<6] = [0, 1, 2, 3, 4, 5::nat]"
  by (simp add: upt_rec)

lemma generateRandomCode_shape:
  assumes "unit_interval rnd"
  shows "length (fst (generateRandomCode rnd pos)) = 6 \<and>
         set (fst (generateRandomCode rnd pos)) \<subseteq> set chars"
proof -
  obtain c0 where c0: "c0 \<in> set chars" "random_char rnd (pos + 0) = [c0]"
    using random_char_in [OF assms] by blast
  obtain c1 where c1: "c1 \<in> set chars" "random_char rnd (pos + 1) = [c1]"
    using random_char_in [OF assms] by blast
  obtain c2 where c2: "c2 \<in> set chars" "random_char rnd (pos + 2) = [c2]"
    using random_char_in [OF assms] by blast
  obtain c3 where c3: "c3 \<in> set chars" "random_char rnd (pos + 3) = [c3]"
    using random_char_in [OF assms] by blast
  obtain c4 where c4: "c4 \<in> set chars" "random_char rnd (pos + 4) = [c4]"
    using random_char_in [OF assms] by blast
  obtain c5 where c5: "c5 \<in> set chars" "random_char rnd (pos + 5) = [c5]"
    using random_char_in [OF assms] by blast
  have "fst (generateRandomCode rnd pos) = [c0, c1, c2, c3, c4, c5]"
    using c0(2) c1(2) c2(2) c3(2) c4(2) c5(2)
    by (simp add: generateRandomCode_def upt_6)
  with c0(1) c1(1) c2(1) c3(1) c4(1) c5(1) show ?thesis by simp
qed

lemma generateRandomCode_valid:
  assumes "unit_interval rnd"
  shows "isValidCode (fst (generateRandomCode rnd pos))"
proof -
  from generateRandomCode_shape [OF assms, of pos]
  have len: "length (fst (generateRandomCode rnd pos)) = 6"
    and sub: "set (fst (generateRandomCode rnd pos)) \<subseteq> set chars" by simp_all
  from chars_alphanumeric have "\<forall>ch \<in> set chars. ascii_alphanumeric ch"
    by (simp add: list_all_iff)
  with sub have "list_all ascii_alphanumeric (fst (generateRandomCode rnd pos))"
    by (auto simp: list_all_iff)
  with len show ?thesis by (simp add: isValidCode_def)
qed

lemma snd_generateRandomCode: "snd (generateRandomCode rnd pos) = pos + 6"
  by (simp add: generateRandomCode_def)

lemma gen_loop_free:
  assumes "j < maxAttempts" and "findUnique st (candidate rnd j) = None"
  shows "a \<le> j \<Longrightarrow> (\<forall>k. a \<le> k \<and> k < j \<longrightarrow> findUnique st (candidate rnd k) \<noteq> None) \<Longrightarrow>
         gen_loop rnd st a (6 * a) c = (j, 6 * (j + 1), Some (candidate rnd j))"
proof (induction "j - a" arbitrary: a c)
  case 0
  then have "a = j" by simp
  with assms show ?case
    by (subst gen_loop.simps) (simp add: candidate_def snd_generateRandomCode)
next
  case (Suc d)
  then have lt: "a < j" by simp
  with Suc.prems(2) have taken: "findUnique st (candidate rnd a) \<noteq> None" by simp
  from lt assms(1) have a: "a < maxAttempts" by simp
  have d: "d = j - (a + 1)" using Suc.hyps(2) by simp
  have le: "a + 1 \<le> j" using lt by simp
  have rest: "\<forall>k. a + 1 \<le> k \<and> k < j \<longrightarrow> findUnique st (candidate rnd k) \<noteq> None"
    using Suc.prems(2) by simp
  have "gen_loop rnd st a (6 * a) c =
      gen_loop rnd st (a + 1) (6 * a + 6) (Some (candidate rnd a))"
    using a taken
    by (subst gen_loop.simps) (auto simp: candidate_def snd_generateRandomCode)
  moreover have "6 * a + 6 = 6 * (a + 1)" by simp
  ultimately have step: "gen_loop rnd st a (6 * a) c =
      gen_loop rnd st (a + 1) (6 * (a + 1)) (Some (candidate rnd a))"
    by (simp only:)
  from Suc.hyps(1) [OF d le rest] step show ?case by simp
qed

lemma gen_loop_exhausted:
  "a < maxAttempts \<Longrightarrow> (\<forall>k. a \<le> k \<and> k < maxAttempts \<longrightarrow> findUnique st (candidate rnd k) \<noteq> None) \<Longrightarrow>
   gen_loop rnd st a (6 * a) c =
     (maxAttempts, 6 * maxAttempts, Some (candidate rnd (maxAttempts - 1)))"
proof (induction "maxAttempts - a" arbitrary: a c)
  case 0
  then show ?case by simp
next
  case (Suc d)
  from Suc.prems have taken: "findUnique st (candidate rnd a) \<noteq> None" by simp
  have "gen_loop rnd st a (6 * a) c =
      gen_loop rnd st (a + 1) (6 * a + 6) (Some (candidate rnd a))"
    using Suc.prems(1) taken
    by (subst gen_loop.simps) (auto simp: candidate_def snd_generateRandomCode)
  moreover have "6 * a + 6 = 6 * (a + 1)" by simp
  ultimately have step: "gen_loop rnd st a (6 * a) c =
      gen_loop rnd st (a + 1) (6 * (a + 1)) (Some (candidate rnd a))"
    by (simp only:)
  show ?case
  proof (cases "a + 1 < maxAttempts")
    case True
    have d: "d = maxAttempts - (a + 1)" using Suc.hyps(2) by simp
    have rest: "\<forall>k. a + 1 \<le> k \<and> k < maxAttempts \<longrightarrow> findUnique st (candidate rnd k) \<noteq> None"
      using Suc.prems(2) by simp
    from Suc.hyps(1) [OF d True rest] step show ?thesis by simp
  next
    case False
    with Suc.prems(1) have eq: "a + 1 = maxAttempts" by simp
    then have "gen_loop rnd st (a + 1) (6 * (a + 1)) (Some (candidate rnd a)) =
        (maxAttempts, 6 * maxAttempts, Some (candidate rnd a))"
      by (subst gen_loop.simps) simp
    moreover from eq have "a = maxAttempts - 1" by simp
    ultimately show ?thesis using step by simp
  qed
qed

lemma gen_loop_initial_code:
  "gen_loop rnd st 0 pos c = gen_loop rnd st 0 pos c'"
  by (subst gen_loop.simps, subst (2) gen_loop.simps) (simp add: maxAttempts_def)

lemma gen_loop_result:
  "gen_loop rnd st 0 0 c =
     (if \<forall>j < maxAttempts. findUnique st (candidate rnd j) \<noteq> None
      then (maxAttempts, 6 * maxAttempts, Some (candidate rnd (maxAttempts - 1)))
      else (let j = (LEAST j. findUnique st (candidate rnd j) = None)
            in (j, 6 * (j + 1), Some (candidate rnd j))))"
proof (cases "\<forall>j < maxAttempts. findUnique st (candidate rnd j) \<noteq> None")
  case True
  have "0 < maxAttempts" by (simp add: maxAttempts_def)
  from gen_loop_exhausted [OF this, of st rnd c] True show ?thesis by simp
next
  case False
  then obtain j0 where j0: "j0 < maxAttempts" "findUnique st (candidate rnd j0) = None" by blast
  let ?j = "LEAST j. findUnique st (candidate rnd j) = None"
  have free: "findUnique st (candidate rnd ?j) = None"
    using j0(2) by (rule LeastI)
  have "?j \<le> j0" using j0(2) by (rule Least_le)
  with j0(1) have lt: "?j < maxAttempts" by simp
  have before: "\<forall>k. 0 \<le> k \<and> k < ?j \<longrightarrow> findUnique st (candidate rnd k) \<noteq> None"
    using not_less_Least by blast
  from gen_loop_free [OF lt free _ before, of c]
  have "gen_loop rnd st 0 0 c = (?j, 6 * (?j + 1), Some (candidate rnd ?j))" by simp
  moreover have "\<not> (\<forall>j < maxAttempts. findUnique st (candidate rnd j) \<noteq> None)"
    by (rule False)
  ultimately show ?thesis
    by (simp only: if_False Let_def)
qed

lemma determine_code_auto:
  "cc = None \<or> cc = Some [] \<Longrightarrow>
   determine_code rnd st cc =
     (case gen_loop rnd st 0 0 None of
        (attempts, pos, c') \<Rightarrow>
          if attempts \<ge> maxAttempts then
            Inl (Json_error ''Failed to generate unique code. Please try again.'' 500)
          else Inr c')"
  using gen_loop_initial_code [of rnd st 0 "Some []" None]
  by (auto simp: determine_code_def truthy_def)

lemma determine_code_auto_result:
  assumes "cc = None \<or> cc = Some []"
  shows "determine_code rnd st cc =
     (if \<forall>j < maxAttempts. findUnique st (candidate rnd j) \<noteq> None
      then Inl (Json_error ''Failed to generate unique code. Please try again.'' 500)
      else Inr (Some (candidate rnd (LEAST j. findUnique st (candidate rnd j) = None))))"
proof (cases "\<forall>j < maxAttempts. findUnique st (candidate rnd j) \<noteq> None")
  case True
  then show ?thesis
    by (simp add: determine_code_auto [OF assms] gen_loop_result)
next
  case False
  then obtain j0 where j0: "j0 < maxAttempts" "findUnique st (candidate rnd j0) = None" by blast
  have "(LEAST j. findUnique st (candidate rnd j) = None) \<le> j0"
    using j0(2) by (rule Least_le)
  with j0(1) have "(LEAST j. findUnique st (candidate rnd j) = None) < maxAttempts" by simp
  with False show ?thesis
    by (simp add: determine_code_auto [OF assms] gen_loop_result Let_def)
qed

lemma POST_create:
  assumes "t \<noteq> []" and "isValidUrl parse t" and "determine_code rnd st cc = Inr (Some c)"
    and "findUnique st c = None"
  shows "POST parse rnd st now \<lparr>targetUrl_in = Some t, customCode = cc\<rparr> =
     (Json_link \<lparr>link_id = next_id st, code = c, targetUrl = t, clicks = 0,
                 lastClicked = None, createdAt = now, updatedAt = now\<rparr> 201,
      st\<lparr>links := links st @ [\<lparr>link_id = next_id st, code = c, targetUrl = t, clicks = 0,
                 lastClicked = None, createdAt = now, updatedAt = now\<rparr>],
         next_id := Suc (next_id st)\<rparr>)"
  using assms by (simp add: POST_valid_target store_create_def Let_def)

lemma determine_code_valid:
  assumes "unit_interval rnd" and "determine_code rnd st cc = Inr (Some c)"
  shows "isValidCode c \<and> findUnique st c = None"
proof (cases "cc = None \<or> cc = Some []")
  case True
  let ?j = "LEAST j. findUnique st (candidate rnd j) = None"
  from assms(2) determine_code_auto_result [OF True, of rnd st]
  have ex: "\<not> (\<forall>j < maxAttempts. findUnique st (candidate rnd j) \<noteq> None)"
    and c: "c = candidate rnd ?j"
    by (auto split: if_splits)
  from ex obtain j0 where "findUnique st (candidate rnd j0) = None" by blast
  then have "findUnique st (candidate rnd ?j) = None" by (rule LeastI)
  moreover have "isValidCode (candidate rnd ?j)"
    unfolding candidate_def using assms(1) by (rule generateRandomCode_valid)
  ultimately show ?thesis using c by simp
next
  case False
  then obtain x where x: "cc = Some x" "x \<noteq> []" by (cases cc) auto
  with assms(2) show ?thesis
    by (auto simp: determine_code_custom split: if_splits)
qed

lemma determine_code_Inl:
  assumes "determine_code rnd st cc = Inl r"
  shows "r = Json_error ''Custom code must be 6-8 alphanumeric characters'' 400 \<or>
         r = Json_error ''This short code is already taken'' 409 \<or>
         r = Json_error ''Failed to generate unique code. Please try again.'' 500"
  using assms
  by (auto simp: determine_code_def truthy_def split: option.splits if_splits prod.splits)

lemma determine_code_Inl_outcome:
  assumes "determine_code rnd st cc = Inl r"
  shows "outcome_of r = InvalidCode \<or> outcome_of r = CodeConflict \<or>
         outcome_of r = ExhaustedCodeSpace"
  using determine_code_Inl [OF assms] by (auto simp: outcome_of_def)

lemma unit_interval_example: "unit_interval example_random"
  by (simp add: unit_interval_def example_random_def)

lemma unit_interval_second_try: "unit_interval second_try_random"
  by (simp add: unit_interval_def second_try_random_def)

lemma candidate_example: "candidate example_random j = ''ffffff''"
  by (simp add: candidate_def generateRandomCode_def upt_6 random_char_def example_random_def
      charAt_def chars_def)

subsection \<open>Create\<close>

text \<open>
  Claim C4. For a valid target URL and a requested code of 6 to 8 alphanumeric
  characters: if a Link holds the code, create answers 409 (\<open>CodeConflict\<close>) and
  leaves the store unchanged, whatever the random source is (no code is generated
  instead); if no Link holds it, the create succeeds with that code, and a second create
  with the same requested code, for any valid target URL, answers 409 and leaves the
  store as the first create left it.
\<close>

theorem create_conflict:
  assumes "t \<noteq> []" and "isValidUrl parse t" and "isValidCode c"
  shows "(findUnique st c \<noteq> None \<longrightarrow>
            POST parse rnd st now \<lparr>targetUrl_in = Some t, customCode = Some c\<rparr> =
              (Json_error ''This short code is already taken'' 409, st)) \<and>
         outcome_of (Json_error ''This short code is already taken'' 409) = CodeConflict \<and>
         (findUnique st c = None \<longrightarrow>
            (\<exists>l st1. POST parse rnd st now \<lparr>targetUrl_in = Some t, customCode = Some c\<rparr> =
                        (Json_link l 201, st1) \<and> code l = c \<and>
               (\<forall>t2 rnd2 now2. t2 \<noteq> [] \<and> isValidUrl parse t2 \<longrightarrow>
                  POST parse rnd2 st1 now2 \<lparr>targetUrl_in = Some t2, customCode = Some c\<rparr> =
                    (Json_error ''This short code is already taken'' 409, st1))))"
proof (intro conjI impI)
  from assms(3) have ne: "c \<noteq> []" by (rule isValidCode_nonempty)
  {
    assume "findUnique st c \<noteq> None"
    with assms ne
    show "POST parse rnd st now \<lparr>targetUrl_in = Some t, customCode = Some c\<rparr> =
              (Json_error ''This short code is already taken'' 409, st)"
      by (simp add: POST_valid_target determine_code_custom)
  }
  show "outcome_of (Json_error ''This short code is already taken'' 409) = CodeConflict"
    by (simp add: outcome_of_def)
  assume free: "findUnique st c = None"
  let ?l = "\<lparr>link_id = next_id st, code = c, targetUrl = t, clicks = 0,
                 lastClicked = None, createdAt = now, updatedAt = now\<rparr>"
  let ?st1 = "st\<lparr>links := links st @ [?l], next_id := Suc (next_id st)\<rparr>"
  from assms(3) ne free have "determine_code rnd st (Some c) = Inr (Some c)"
    by (simp add: determine_code_custom)
  from POST_create [OF assms(1,2) this free]
  have first: "POST parse rnd st now \<lparr>targetUrl_in = Some t, customCode = Some c\<rparr> =
      (Json_link ?l 201, ?st1)" .
  have taken: "findUnique ?st1 c \<noteq> None"
    using free by (simp add: findUnique_append)
  have second: "\<forall>t2 rnd2 now2. t2 \<noteq> [] \<and> isValidUrl parse t2 \<longrightarrow>
      POST parse rnd2 ?st1 now2 \<lparr>targetUrl_in = Some t2, customCode = Some c\<rparr> =
        (Json_error ''This short code is already taken'' 409, ?st1)"
    using taken assms(3) ne by (simp add: POST_valid_target determine_code_custom)
  from first second
  show "\<exists>l st1. POST parse rnd st now \<lparr>targetUrl_in = Some t, customCode = Some c\<rparr> =
                        (Json_link l 201, st1) \<and> code l = c \<and>
               (\<forall>t2 rnd2 now2. t2 \<noteq> [] \<and> isValidUrl parse t2 \<longrightarrow>
                  POST parse rnd2 st1 now2 \<lparr>targetUrl_in = Some t2, customCode = Some c\<rparr> =
                    (Json_error ''This short code is already taken'' 409, st1))"
    by (intro exI [of _ ?l] exI [of _ ?st1]) simp
qed

theorem create_conflict_witness:
  "''https://example.com'' \<noteq> [] \<and> isValidUrl URL_basic ''https://example.com'' \<and>
   isValidCode ''abc123'' \<and>
   findUnique example_store ''abc123'' \<noteq> None \<and>
   POST URL_basic example_random example_store 9
     \<lparr>targetUrl_in = Some ''https://example.com'', customCode = Some ''abc123''\<rparr> =
     (Json_error ''This short code is already taken'' 409, example_store) \<and>
   findUnique empty_store ''abc123'' = None \<and>
   (\<exists>l st1. POST URL_basic example_random empty_store 9
       \<lparr>targetUrl_in = Some ''https://example.com'', customCode = Some ''abc123''\<rparr> =
       (Json_link l 201, st1) \<and> code l = ''abc123'' \<and>
     POST URL_basic example_random st1 10
       \<lparr>targetUrl_in = Some ''https://example.com'', customCode = Some ''abc123''\<rparr> =
       (Json_error ''This short code is already taken'' 409, st1))"
proof -
  have url: "''https://example.com'' \<noteq> []" "isValidUrl URL_basic ''https://example.com''"
    using example_url by simp_all
  have valid: "isValidCode ''abc123''"
    by code_simp
  have taken: "findUnique example_store ''abc123'' \<noteq> None"
    by code_simp
  have free: "findUnique empty_store ''abc123'' = None"
    by code_simp
  from create_conflict [OF url valid, of example_store example_random 9] taken
  have conflict: "POST URL_basic example_random example_store 9
     \<lparr>targetUrl_in = Some ''https://example.com'', customCode = Some ''abc123''\<rparr> =
     (Json_error ''This short code is already taken'' 409, example_store)"
    by blast
  from create_conflict [OF url valid, of empty_store example_random 9] free url
  have twice: "\<exists>l st1. POST URL_basic example_random empty_store 9
       \<lparr>targetUrl_in = Some ''https://example.com'', customCode = Some ''abc123''\<rparr> =
       (Json_link l 201, st1) \<and> code l = ''abc123'' \<and>
     POST URL_basic example_random st1 10
       \<lparr>targetUrl_in = Some ''https://example.com'', customCode = Some ''abc123''\<rparr> =
       (Json_error ''This short code is already taken'' 409, st1)"
    by blast
  from url valid taken conflict free twice show ?thesis by blast
qed

text \<open>
  Claim C5. For a valid target URL and no requested code, with \<open>Math.random()\<close> in
  \<open>[0, 1)\<close>: every candidate is exactly 6 characters of the 62-character alphabet
  \<open>[A-Za-z0-9]\<close>; create fails with \<open>ExhaustedCodeSpace\<close> if and only if the first 10
  candidates all collide with codes in the store, and then the loop has drawn exactly 10
  candidates (60 random numbers) and the store is unchanged; if candidate \<open>j < 10\<close> is the
  first that is free, the loop stops after \<open>j + 1\<close> candidates and the Link is created with
  that candidate.
\<close>

theorem auto_code_bounded:
  assumes "t \<noteq> []" and "isValidUrl parse t" and "unit_interval rnd"
  shows "(\<forall>j. length (candidate rnd j) = 6 \<and> set (candidate rnd j) \<subseteq> set chars) \<and>
         length chars = 62 \<and> distinct chars \<and> list_all ascii_alphanumeric chars \<and>
         (outcome_of (fst (POST parse rnd st now \<lparr>targetUrl_in = Some t, customCode = None\<rparr>))
            = ExhaustedCodeSpace
          \<longleftrightarrow> (\<forall>j < 10. findUnique st (candidate rnd j) \<noteq> None)) \<and>
         ((\<forall>j < 10. findUnique st (candidate rnd j) \<noteq> None) \<longrightarrow>
            gen_loop rnd st 0 0 None = (10, 60, Some (candidate rnd 9)) \<and>
            POST parse rnd st now \<lparr>targetUrl_in = Some t, customCode = None\<rparr> =
              (Json_error ''Failed to generate unique code. Please try again.'' 500, st)) \<and>
         (\<forall>j < 10. (\<forall>i < j. findUnique st (candidate rnd i) \<noteq> None) \<and>
                    findUnique st (candidate rnd j) = None \<longrightarrow>
            gen_loop rnd st 0 0 None = (j, 6 * (j + 1), Some (candidate rnd j)) \<and>
            (\<exists>l. POST parse rnd st now \<lparr>targetUrl_in = Some t, customCode = None\<rparr> =
                    (Json_link l 201, st\<lparr>links := links st @ [l], next_id := Suc (next_id st)\<rparr>) \<and>
                  code l = candidate rnd j))"
proof -
  let ?b = "\<lparr>targetUrl_in = Some t, customCode = None\<rparr>"
  let ?all = "\<forall>j < 10. findUnique st (candidate rnd j) \<noteq> None"
  have shape: "\<forall>j. length (candidate rnd j) = 6 \<and> set (candidate rnd j) \<subseteq> set chars"
    unfolding candidate_def using generateRandomCode_shape [OF assms(3)] by blast
  have exhausted: "?all \<longrightarrow>
      gen_loop rnd st 0 0 None = (10, 60, Some (candidate rnd 9)) \<and>
      POST parse rnd st now ?b =
        (Json_error ''Failed to generate unique code. Please try again.'' 500, st)"
  proof
    assume all: ?all
    then have all': "\<forall>j < maxAttempts. findUnique st (candidate rnd j) \<noteq> None"
      by (simp add: maxAttempts_def)
    have "gen_loop rnd st 0 0 None = (10, 60, Some (candidate rnd 9))"
      using all' by (simp add: gen_loop_result) (simp add: maxAttempts_def)
    moreover have "determine_code rnd st None =
        Inl (Json_error ''Failed to generate unique code. Please try again.'' 500)"
      using all' by (simp add: determine_code_auto_result)
    ultimately show "gen_loop rnd st 0 0 None = (10, 60, Some (candidate rnd 9)) \<and>
      POST parse rnd st now ?b =
        (Json_error ''Failed to generate unique code. Please try again.'' 500, st)"
      using assms(1,2) by (simp add: POST_valid_target)
  qed
  have found: "\<forall>j < 10. (\<forall>i < j. findUnique st (candidate rnd i) \<noteq> None) \<and>
                    findUnique st (candidate rnd j) = None \<longrightarrow>
            gen_loop rnd st 0 0 None = (j, 6 * (j + 1), Some (candidate rnd j)) \<and>
            (\<exists>l. POST parse rnd st now ?b =
                    (Json_link l 201, st\<lparr>links := links st @ [l], next_id := Suc (next_id st)\<rparr>) \<and>
                  code l = candidate rnd j)"
  proof (intro allI impI)
    fix j :: nat
    assume j: "j < 10"
      and "(\<forall>i < j. findUnique st (candidate rnd i) \<noteq> None) \<and>
           findUnique st (candidate rnd j) = None"
    then have before: "\<forall>k. 0 \<le> k \<and> k < j \<longrightarrow> findUnique st (candidate rnd k) \<noteq> None"
      and free: "findUnique st (candidate rnd j) = None" by simp_all
    from j have lt: "j < maxAttempts" by (simp add: maxAttempts_def)
    from gen_loop_free [OF lt free _ before, of None]
    have loop: "gen_loop rnd st 0 0 None = (j, 6 * (j + 1), Some (candidate rnd j))" by simp
    then have "determine_code rnd st None = Inr (Some (candidate rnd j))"
      using lt by (simp add: determine_code_auto)
    from POST_create [OF assms(1,2) this free, of now] loop
    show "gen_loop rnd st 0 0 None = (j, 6 * (j + 1), Some (candidate rnd j)) \<and>
            (\<exists>l. POST parse rnd st now ?b =
                    (Json_link l 201, st\<lparr>links := links st @ [l], next_id := Suc (next_id st)\<rparr>) \<and>
                  code l = candidate rnd j)"
      by simp
  qed
  have iff: "outcome_of (fst (POST parse rnd st now ?b)) = ExhaustedCodeSpace \<longleftrightarrow> ?all"
  proof
    assume ex: "outcome_of (fst (POST parse rnd st now ?b)) = ExhaustedCodeSpace"
    show ?all
    proof (rule ccontr)
      assume "\<not> ?all"
      then obtain j0 where j0: "j0 < 10" "findUnique st (candidate rnd j0) = None" by blast
      let ?j = "LEAST j. findUnique st (candidate rnd j) = None"
      have free: "findUnique st (candidate rnd ?j) = None"
        using j0(2) by (rule LeastI)
      have "?j \<le> j0" using j0(2) by (rule Least_le)
      with j0(1) have lt: "?j < 10" by simp
      have "\<forall>i < ?j. findUnique st (candidate rnd i) \<noteq> None"
        using not_less_Least by blast
      with found lt free obtain l where
        "POST parse rnd st now ?b =
           (Json_link l 201, st\<lparr>links := links st @ [l], next_id := Suc (next_id st)\<rparr>)"
        by blast
      with ex show False by (simp add: outcome_of_def)
    qed
  next
    assume ?all
    with exhausted show "outcome_of (fst (POST parse rnd st now ?b)) = ExhaustedCodeSpace"
      by (simp add: outcome_of_def)
  qed
  from shape length_chars distinct_chars chars_alphanumeric iff exhausted found
  show ?thesis by blast
qed

theorem auto_code_bounded_witness:
  "unit_interval example_random \<and>
   list_all (\<lambda>j. findUnique taken_store (candidate example_random j) \<noteq> None) [0..<10] \<and>
   gen_loop example_random taken_store 0 0 None = (10, 60, Some (candidate example_random 9)) \<and>
   POST URL_basic example_random taken_store 9
     \<lparr>targetUrl_in = Some ''https://example.com'', customCode = None\<rparr> =
     (Json_error ''Failed to generate unique code. Please try again.'' 500, taken_store) \<and>
   unit_interval second_try_random \<and>
   findUnique taken_store (candidate second_try_random 0) \<noteq> None \<and>
   findUnique taken_store (candidate second_try_random 1) = None \<and>
   gen_loop second_try_random taken_store 0 0 None = (1, 12, Some ''AAAAAA'') \<and>
   (\<exists>l. fst (POST URL_basic second_try_random taken_store 9
           \<lparr>targetUrl_in = Some ''https://example.com'', customCode = None\<rparr>) = Json_link l 201 \<and>
         code l = ''AAAAAA'')"
proof -
  have url: "''https://example.com'' \<noteq> []" "isValidUrl URL_basic ''https://example.com''"
    using example_url by simp_all
  have all: "\<forall>j < 10. findUnique taken_store (candidate example_random j) \<noteq> None"
    by (simp add: candidate_example findUnique_def taken_store_def)
  have c0: "findUnique taken_store (candidate second_try_random 0) \<noteq> None"
    by code_simp
  have c1: "findUnique taken_store (candidate second_try_random 1) = None"
    by code_simp
  have "candidate second_try_random 1 = ''AAAAAA''"
    by code_simp
  then have c1_eq: "candidate second_try_random (Suc 0) = ''AAAAAA''"
    by simp
  have first: "(\<forall>i < 1. findUnique taken_store (candidate second_try_random i) \<noteq> None) \<and>
      findUnique taken_store (candidate second_try_random 1) = None"
    using c0 c1 by simp
  from auto_code_bounded [OF url unit_interval_example, of taken_store 9] all
  have exhausted: "gen_loop example_random taken_store 0 0 None =
       (10, 60, Some (candidate example_random 9)) \<and>
     POST URL_basic example_random taken_store 9
       \<lparr>targetUrl_in = Some ''https://example.com'', customCode = None\<rparr> =
       (Json_error ''Failed to generate unique code. Please try again.'' 500, taken_store)"
    by blast
  from auto_code_bounded [OF url unit_interval_second_try, of taken_store 9]
  have "\<forall>j < 10. (\<forall>i < j. findUnique taken_store (candidate second_try_random i) \<noteq> None) \<and>
                    findUnique taken_store (candidate second_try_random j) = None \<longrightarrow>
            gen_loop second_try_random taken_store 0 0 None =
              (j, 6 * (j + 1), Some (candidate second_try_random j)) \<and>
            (\<exists>l. POST URL_basic second_try_random taken_store 9
                    \<lparr>targetUrl_in = Some ''https://example.com'', customCode = None\<rparr> =
                    (Json_link l 201, taken_store\<lparr>links := links taken_store @ [l],
                        next_id := Suc (next_id taken_store)\<rparr>) \<and>
                  code l = candidate second_try_random j)"
    by blast
  from this [rule_format, of 1] first
  have second: "gen_loop second_try_random taken_store 0 0 None = (1, 12, Some ''AAAAAA'') \<and>
     (\<exists>l. fst (POST URL_basic second_try_random taken_store 9
           \<lparr>targetUrl_in = Some ''https://example.com'', customCode = None\<rparr>) = Json_link l 201 \<and>
         code l = ''AAAAAA'')"
    by (auto simp: c1_eq)
  have listed: "list_all (\<lambda>j. findUnique taken_store (candidate example_random j) \<noteq> None) [0..<10]"
    using all by (simp add: list_all_iff)
  from unit_interval_example listed exhausted unit_interval_second_try c0 c1 second
  show ?thesis by blast
qed

text \<open>
  Claim C6, amended. For every string \<open>targetUrl\<close>, create fails with \<open>InvalidTarget\<close> if and
  only if the string is empty or \<open>new URL\<close> rejects it; a host is not required. The
  rejection does not depend on the store, the random source, the time or the requested
  code, and leaves the store unchanged.
\<close>

theorem invalid_target_iff:
  "(outcome_of (fst (POST parse rnd st now \<lparr>targetUrl_in = Some t, customCode = cc\<rparr>))
      = InvalidTarget \<longleftrightarrow> t = [] \<or> parse t = None) \<and>
   (t = [] \<or> parse t = None \<longrightarrow>
      (\<forall>rnd2 st2 now2 cc2.
         snd (POST parse rnd2 st2 now2 \<lparr>targetUrl_in = Some t, customCode = cc2\<rparr>) = st2 \<and>
         fst (POST parse rnd2 st2 now2 \<lparr>targetUrl_in = Some t, customCode = cc2\<rparr>) =
         fst (POST parse rnd st now \<lparr>targetUrl_in = Some t, customCode = cc\<rparr>)))"
proof (intro conjI impI)
  show "outcome_of (fst (POST parse rnd st now \<lparr>targetUrl_in = Some t, customCode = cc\<rparr>))
      = InvalidTarget \<longleftrightarrow> t = [] \<or> parse t = None"
  proof (cases "t = [] \<or> parse t = None")
    case True
    then show ?thesis
      by (auto simp: POST_def isValidUrl_def outcome_of_def)
  next
    case False
    then have t: "t \<noteq> []" "isValidUrl parse t"
      by (auto simp: isValidUrl_def)
    have "outcome_of (fst (POST parse rnd st now \<lparr>targetUrl_in = Some t, customCode = cc\<rparr>))
        \<noteq> InvalidTarget"
      using determine_code_Inl_outcome [of rnd st cc]
      by (auto simp: POST_valid_target [OF t] outcome_of_def
          split: sum.splits option.splits prod.splits)
    with False show ?thesis by simp
  qed
next
  assume "t = [] \<or> parse t = None"
  then show "\<forall>rnd2 st2 now2 cc2.
         snd (POST parse rnd2 st2 now2 \<lparr>targetUrl_in = Some t, customCode = cc2\<rparr>) = st2 \<and>
         fst (POST parse rnd2 st2 now2 \<lparr>targetUrl_in = Some t, customCode = cc2\<rparr>) =
         fst (POST parse rnd st now \<lparr>targetUrl_in = Some t, customCode = cc\<rparr>)"
    by (auto simp: POST_def isValidUrl_def)
qed

theorem invalid_target_iff_witness:
  "URL_basic ''not a url'' = None \<and>
   outcome_of (fst (POST URL_basic example_random example_store 9
     \<lparr>targetUrl_in = Some ''not a url'', customCode = None\<rparr>)) = InvalidTarget \<and>
   snd (POST URL_basic example_random example_store 9
     \<lparr>targetUrl_in = Some ''not a url'', customCode = None\<rparr>) = example_store \<and>
   outcome_of (fst (POST URL_basic example_random example_store 9
     \<lparr>targetUrl_in = Some ''https://example.com'', customCode = None\<rparr>)) \<noteq> InvalidTarget"
proof -
  have bad: "URL_basic ''not a url'' = None"
    by code_simp
  have good: "''https://example.com'' \<noteq> [] \<and> URL_basic ''https://example.com'' \<noteq> None"
    by code_simp
  from invalid_target_iff [of URL_basic example_random example_store 9 "''not a url''" None] bad
  have rejected: "outcome_of (fst (POST URL_basic example_random example_store 9
       \<lparr>targetUrl_in = Some ''not a url'', customCode = None\<rparr>)) = InvalidTarget \<and>
     snd (POST URL_basic example_random example_store 9
       \<lparr>targetUrl_in = Some ''not a url'', customCode = None\<rparr>) = example_store"
    by blast
  from invalid_target_iff [of URL_basic example_random example_store 9 "''https://example.com''" None]
    good
  have accepted: "outcome_of (fst (POST URL_basic example_random example_store 9
     \<lparr>targetUrl_in = Some ''https://example.com'', customCode = None\<rparr>)) \<noteq> InvalidTarget"
    by blast
  from bad rejected accepted show ?thesis by blast
qed

text \<open>
  The statement that requires a host fails: \<open>mailto:x\<close> parses with a scheme and a null
  host, and create accepts it and stores the Link.
\<close>

theorem invalid_target_counterexample:
  "URL_basic ''mailto:x'' = Some \<lparr>url_scheme = ''mailto'', url_host = None\<rparr> \<and>
   outcome_of (fst (POST URL_basic example_random empty_store 9
     \<lparr>targetUrl_in = Some ''mailto:x'', customCode = None\<rparr>)) \<noteq> InvalidTarget \<and>
   POST URL_basic example_random empty_store 9
     \<lparr>targetUrl_in = Some ''mailto:x'', customCode = None\<rparr> =
     (Json_link \<lparr>link_id = 0, code = ''ffffff'', targetUrl = ''mailto:x'', clicks = 0,
                 lastClicked = None, createdAt = 9, updatedAt = 9\<rparr> 201,
      \<lparr>links = [\<lparr>link_id = 0, code = ''ffffff'', targetUrl = ''mailto:x'', clicks = 0,
                 lastClicked = None, createdAt = 9, updatedAt = 9\<rparr>], next_id = 1\<rparr>)"
  by code_simp

text \<open>
  Claim C8, amended. For a valid target URL and every non-empty requested code, create
  fails with \<open>InvalidCode\<close> if and only if the code does not match
  \<open>^[A-Za-z0-9]{6,8}$\<close>, and the rejection does not depend on the store, the random source
  or the time and leaves the store unchanged; an empty requested code never fails with
  \<open>InvalidCode\<close>.
\<close>

theorem invalid_code_iff:
  assumes "t \<noteq> []" and "isValidUrl parse t"
  shows "(c \<noteq> [] \<longrightarrow>
            (outcome_of (fst (POST parse rnd st now \<lparr>targetUrl_in = Some t, customCode = Some c\<rparr>))
               = InvalidCode \<longleftrightarrow> \<not> isValidCode c)) \<and>
         (c \<noteq> [] \<and> \<not> isValidCode c \<longrightarrow>
            (\<forall>rnd2 st2 now2.
               POST parse rnd2 st2 now2 \<lparr>targetUrl_in = Some t, customCode = Some c\<rparr> =
                 (Json_error ''Custom code must be 6-8 alphanumeric characters'' 400, st2))) \<and>
         outcome_of (fst (POST parse rnd st now \<lparr>targetUrl_in = Some t, customCode = Some []\<rparr>))
           \<noteq> InvalidCode"
proof (intro conjI impI)
  assume ne: "c \<noteq> []"
  show "outcome_of (fst (POST parse rnd st now \<lparr>targetUrl_in = Some t, customCode = Some c\<rparr>))
               = InvalidCode \<longleftrightarrow> \<not> isValidCode c"
    using ne
    by (auto simp: POST_valid_target [OF assms] determine_code_custom outcome_of_def
        store_create_def Let_def)
next
  assume "c \<noteq> [] \<and> \<not> isValidCode c"
  then show "\<forall>rnd2 st2 now2.
               POST parse rnd2 st2 now2 \<lparr>targetUrl_in = Some t, customCode = Some c\<rparr> =
                 (Json_error ''Custom code must be 6-8 alphanumeric characters'' 400, st2)"
    by (simp add: POST_valid_target [OF assms] determine_code_custom)
next
  show "outcome_of (fst (POST parse rnd st now \<lparr>targetUrl_in = Some t, customCode = Some []\<rparr>))
           \<noteq> InvalidCode"
    by (auto simp: POST_def outcome_of_def determine_code_auto_result
        split: option.splits if_splits sum.splits)
qed

theorem invalid_code_iff_witness:
  "''https://example.com'' \<noteq> [] \<and> isValidUrl URL_basic ''https://example.com'' \<and>
   ''ab'' \<noteq> [] \<and> \<not> isValidCode ''ab'' \<and>
   outcome_of (fst (POST URL_basic example_random example_store 9
     \<lparr>targetUrl_in = Some ''https://example.com'', customCode = Some ''ab''\<rparr>)) = InvalidCode \<and>
   POST URL_basic example_random example_store 9
     \<lparr>targetUrl_in = Some ''https://example.com'', customCode = Some ''ab''\<rparr> =
     (Json_error ''Custom code must be 6-8 alphanumeric characters'' 400, example_store)"
proof -
  have url: "''https://example.com'' \<noteq> []" "isValidUrl URL_basic ''https://example.com''"
    using example_url by simp_all
  have short: "''ab'' \<noteq> [] \<and> \<not> isValidCode ''ab''"
    by code_simp
  from invalid_code_iff [OF url, of "''ab''" example_random example_store 9] short url
  show ?thesis by blast
qed

text \<open>
  The statement for every supplied code fails at the empty string: it does not match the
  pattern, and the create succeeds.
\<close>

theorem invalid_code_counterexample:
  "\<not> isValidCode [] \<and>
   outcome_of (fst (POST URL_basic example_random empty_store 9
     \<lparr>targetUrl_in = Some ''https://example.com'', customCode = Some []\<rparr>)) = Success"
  by code_simp

text \<open>
  Claim C9. With \<open>Math.random()\<close> in \<open>[0, 1)\<close>, every successful create returns a Link with
  status 201 that has \<open>clicks = 0\<close>, \<open>lastClicked = null\<close>, \<open>createdAt = updatedAt = now\<close>, a
  code of 6 to 8 alphanumeric characters that no Link of the store before the call
  has, and the given target URL; the store afterwards is the store before with exactly
  that Link appended.
\<close>

theorem create_success:
  assumes "unit_interval rnd"
    and "outcome_of (fst (POST parse rnd st now b)) = Success"
  shows "\<exists>l. POST parse rnd st now b =
           (Json_link l 201, st\<lparr>links := links st @ [l], next_id := Suc (next_id st)\<rparr>) \<and>
         clicks l = 0 \<and> lastClicked l = None \<and> createdAt l = now \<and> updatedAt l = now \<and>
         isValidCode (code l) \<and> (\<forall>x \<in> set (links st). code x \<noteq> code l) \<and>
         targetUrl_in b = Some (targetUrl l)"
proof -
  from assms(2) obtain t c where t: "targetUrl_in b = Some t" "t \<noteq> []" "isValidUrl parse t"
    and dc: "determine_code rnd st (customCode b) = Inr (Some c)"
    by (auto simp: POST_def outcome_of_def store_create_def
        split: option.splits if_splits sum.splits dest: determine_code_Inl)
  from determine_code_valid [OF assms(1) dc]
  have valid: "isValidCode c" and free: "findUnique st c = None" by simp_all
  have b: "b = \<lparr>targetUrl_in = Some t, customCode = customCode b\<rparr>"
    using t(1) by simp
  let ?l = "\<lparr>link_id = next_id st, code = c, targetUrl = t, clicks = 0,
                 lastClicked = None, createdAt = now, updatedAt = now\<rparr>"
  from POST_create [OF t(2,3) dc free, of now] b
  have "POST parse rnd st now b =
      (Json_link ?l 201, st\<lparr>links := links st @ [?l], next_id := Suc (next_id st)\<rparr>)"
    by simp
  moreover from free have "\<forall>x \<in> set (links st). code x \<noteq> c"
    by (auto simp: findUnique_def find_None_iff)
  ultimately show ?thesis
    using valid t(1) by (intro exI [of _ ?l]) simp
qed

theorem create_success_witness:
  "unit_interval example_random \<and>
   outcome_of (fst (POST URL_basic example_random example_store 9
     \<lparr>targetUrl_in = Some ''https://example.com'', customCode = None\<rparr>)) = Success \<and>
   (\<exists>l. POST URL_basic example_random example_store 9
           \<lparr>targetUrl_in = Some ''https://example.com'', customCode = None\<rparr> =
           (Json_link l 201,
            example_store\<lparr>links := links example_store @ [l],
                            next_id := Suc (next_id example_store)\<rparr>) \<and>
         clicks l = 0 \<and> lastClicked l = None \<and> createdAt l = 9 \<and> updatedAt l = 9 \<and>
         isValidCode (code l) \<and> targetUrl l = ''https://example.com'')"
proof -
  have ok: "outcome_of (fst (POST URL_basic example_random example_store 9
     \<lparr>targetUrl_in = Some ''https://example.com'', customCode = None\<rparr>)) = Success"
    by code_simp
  from create_success [OF unit_interval_example ok] unit_interval_example ok
  show ?thesis by auto
qed

text \<open>
  Claim C10. A create whose requested code is the empty string answers exactly as the
  create without a requested code, with the same resulting store; it never fails with
  \<open>InvalidCode\<close>, and with \<open>Math.random()\<close> in \<open>[0, 1)\<close> a Link it creates carries a generated
  code: the first free candidate, 6 characters of the alphabet.
\<close>

theorem empty_code_as_absent:
  "POST parse rnd st now \<lparr>targetUrl_in = t, customCode = Some []\<rparr> =
     POST parse rnd st now \<lparr>targetUrl_in = t, customCode = None\<rparr> \<and>
   outcome_of (fst (POST parse rnd st now \<lparr>targetUrl_in = t, customCode = Some []\<rparr>))
     \<noteq> InvalidCode \<and>
   (unit_interval rnd \<longrightarrow>
      (\<forall>l status st'.
         POST parse rnd st now \<lparr>targetUrl_in = t, customCode = Some []\<rparr> = (Json_link l status, st')
         \<longrightarrow> length (code l) = 6 \<and> set (code l) \<subseteq> set chars \<and>
             code l = candidate rnd (LEAST j. findUnique st (candidate rnd j) = None)))"
proof -
  let ?b = "\<lparr>targetUrl_in = t, customCode = Some []\<rparr>"
  let ?c = "candidate rnd (LEAST j. findUnique st (candidate rnd j) = None)"
  have "determine_code rnd st (Some []) = determine_code rnd st None"
    by (simp add: determine_code_auto)
  then have eq: "POST parse rnd st now ?b =
     POST parse rnd st now \<lparr>targetUrl_in = t, customCode = None\<rparr>"
    by (cases t) (simp_all add: POST_def)
  have kind: "outcome_of (fst (POST parse rnd st now ?b)) \<noteq> InvalidCode"
    by (auto simp: POST_def outcome_of_def determine_code_auto_result
        split: option.splits if_splits sum.splits)
  have generated: "unit_interval rnd \<longrightarrow>
      (\<forall>l status st'. POST parse rnd st now ?b = (Json_link l status, st')
         \<longrightarrow> length (code l) = 6 \<and> set (code l) \<subseteq> set chars \<and> code l = ?c)"
  proof (intro impI allI)
    fix l status st'
    assume ui: "unit_interval rnd"
      and created: "POST parse rnd st now ?b = (Json_link l status, st')"
    from created have "code l = ?c"
      by (auto simp: POST_def determine_code_auto_result store_create_def Let_def
          split: option.splits if_splits sum.splits)
    moreover have "length ?c = 6 \<and> set ?c \<subseteq> set chars"
      unfolding candidate_def using ui by (rule generateRandomCode_shape)
    ultimately show "length (code l) = 6 \<and> set (code l) \<subseteq> set chars \<and> code l = ?c"
      by simp
  qed
  from eq kind generated show ?thesis by blast
qed

theorem empty_code_as_absent_witness:
  "unit_interval example_random \<and>
   POST URL_basic example_random empty_store 9
     \<lparr>targetUrl_in = Some ''https://example.com'', customCode = Some []\<rparr> =
   POST URL_basic example_random empty_store 9
     \<lparr>targetUrl_in = Some ''https://example.com'', customCode = None\<rparr> \<and>
   (\<exists>l st'. POST URL_basic example_random empty_store 9
     \<lparr>targetUrl_in = Some ''https://example.com'', customCode = Some []\<rparr> = (Json_link l 201, st') \<and>
     code l = ''ffffff'' \<and> length (code l) = 6)"
proof -
  have "POST URL_basic example_random empty_store 9
     \<lparr>targetUrl_in = Some ''https://example.com'', customCode = Some []\<rparr> =
     (Json_link \<lparr>link_id = 0, code = ''ffffff'', targetUrl = ''https://example.com'', clicks = 0,
                 lastClicked = None, createdAt = 9, updatedAt = 9\<rparr> 201,
      \<lparr>links = [\<lparr>link_id = 0, code = ''ffffff'', targetUrl = ''https://example.com'',
                 clicks = 0, lastClicked = None, createdAt = 9, updatedAt = 9\<rparr>], next_id = 1\<rparr>)"
    by code_simp
  then have created: "\<exists>l st'. POST URL_basic example_random empty_store 9
     \<lparr>targetUrl_in = Some ''https://example.com'', customCode = Some []\<rparr> = (Json_link l 201, st') \<and>
     code l = ''ffffff''"
    by simp
  from empty_code_as_absent [of URL_basic example_random empty_store 9 "Some ''https://example.com''"]
    unit_interval_example created
  show ?thesis by auto
qed

subsection \<open>Concurrent resolutions of one code\<close>

text \<open>Run alone, the two steps of a request are the handler.\<close>

lemma schedule_single:
  "schedule st [Lookup c] [(0, t), (0, now)] = (snd (GET_code st now c), [Done (fst (GET_code st now c))])"
  by (auto simp: GET_code_def GET_code_find_def GET_code_update_def split: option.splits sum.splits)

text \<open>
  A step of a request for the code raises the stored \<open>clicks\<close> by one exactly when the request
  becomes redirected: the update adds to the stored value, not to the row the request
  read earlier, and an update that is refused changes nothing and ends in 500.
\<close>

lemma request_step_count:
  assumes "for_code c r" and "findUnique st c = Some l" and "request_step st now r = (r', st')"
  shows "for_code c r' \<and>
    (\<exists>l'. findUnique st' c = Some l' \<and>
       clicks l' + (if redirected r then 1 else 0) = clicks l + (if redirected r' then 1 else 0))"
proof (cases r)
  case (Lookup c')
  with assms show ?thesis
    by (auto simp: GET_code_find_def)
next
  case (Update c' l0)
  with assms(1) have c': "c' = c" by simp
  show ?thesis
  proof (cases "clicks_full st c")
    case True
    with assms(2) have "store_update st now c = None"
      by (simp add: store_update_def)
    with assms(3) Update c' have "r' = Done (Json_error ''Internal server error'' 500)" "st' = st"
      by (simp_all add: GET_code_update_def)
    with assms(2) Update show ?thesis by simp
  next
    case False
    with assms(2) have "store_update st now c =
        Some (st\<lparr>links := map (\<lambda>x. if code x = c then record_click now x else x) (links st)\<rparr>)"
      by (simp add: store_update_def)
    with assms(3) Update c'
    have r': "r' = Done (Redirect (targetUrl l0) 302)"
      and st': "st' = st\<lparr>links := map (\<lambda>x. if code x = c then record_click now x else x) (links st)\<rparr>"
      by (simp_all add: GET_code_update_def)
    from st' assms(2) have "findUnique st' c = Some (record_click now l)"
      by (simp add: findUnique_click)
    with r' Update show ?thesis
      by (simp add: record_click_def)
  qed
next
  case (Done x)
  with assms show ?thesis by auto
qed

lemma filter_update_count:
  "i < length xs \<Longrightarrow>
   int (length (filter P (xs[i := y]))) + (if P (xs ! i) then 1 else 0) =
   int (length (filter P xs)) + (if P y then 1 else 0)"
proof (induction xs arbitrary: i)
  case Nil
  then show ?case by simp
next
  case (Cons x xs)
  show ?case
  proof (cases i)
    case 0
    then show ?thesis by simp
  next
    case (Suc j)
    with Cons.prems have "j < length xs" by simp
    from Cons.IH [OF this] Suc show ?thesis by (auto split: if_splits)
  qed
qed

lemma schedule_length: "schedule st rs evs = (st', rs') \<Longrightarrow> length rs' = length rs"
proof (induction evs arbitrary: st rs)
  case Nil
  then show ?case by simp
next
  case (Cons ev evs)
  obtain i now where ev: "ev = (i, now)" by (cases ev)
  show ?case
  proof (cases "i < length rs")
    case True
    obtain r1 st1 where step: "request_step st now (rs ! i) = (r1, st1)"
      by (cases "request_step st now (rs ! i)")
    with Cons.prems ev True have "schedule st1 (rs[i := r1]) evs = (st', rs')" by simp
    from Cons.IH [OF this] show ?thesis by simp
  next
    case False
    with Cons.prems ev have "schedule st rs evs = (st', rs')" by simp
    from Cons.IH [OF this] show ?thesis .
  qed
qed

lemma schedule_count:
  assumes "list_all (for_code c) rs" and "findUnique st c = Some l"
    and "schedule st rs evs = (st', rs')"
  shows "\<exists>l'. findUnique st' c = Some l' \<and>
     clicks l' + int (length (filter redirected rs)) =
     clicks l + int (length (filter redirected rs'))"
  using assms
proof (induction evs arbitrary: st rs l)
  case Nil
  then show ?case by simp
next
  case (Cons ev evs)
  obtain i now where ev: "ev = (i, now)" by (cases ev)
  show ?case
  proof (cases "i < length rs")
    case True
    obtain r1 st1 where step: "request_step st now (rs ! i) = (r1, st1)"
      by (cases "request_step st now (rs ! i)")
    from Cons.prems(1) True have "for_code c (rs ! i)"
      by (simp add: list_all_length)
    from request_step_count [OF this Cons.prems(2) step]
    obtain l1 where r1: "for_code c r1" and l1: "findUnique st1 c = Some l1"
      and n1: "clicks l1 + (if redirected (rs ! i) then 1 else 0) =
               clicks l + (if redirected r1 then 1 else 0)"
      by blast
    have all1: "list_all (for_code c) (rs[i := r1])"
      using Cons.prems(1) r1 set_update_subset_insert [of rs i r1]
      by (auto simp: list_all_iff)
    from Cons.prems(3) ev True step
    have rest: "schedule st1 (rs[i := r1]) evs = (st', rs')" by simp
    from Cons.IH [OF all1 l1 rest]
    obtain l' where l': "findUnique st' c = Some l'"
      and n': "clicks l' + int (length (filter redirected (rs[i := r1]))) =
               clicks l1 + int (length (filter redirected rs'))"
      by blast
    from filter_update_count [OF True, of redirected r1]
    have "int (length (filter redirected (rs[i := r1]))) + (if redirected (rs ! i) then 1 else 0) =
          int (length (filter redirected rs)) + (if redirected r1 then 1 else 0)" .
    with n1 n' have "clicks l' + int (length (filter redirected rs)) =
        clicks l + int (length (filter redirected rs'))"
      by (simp split: if_splits)
    with l' show ?thesis by blast
  next
    case False
    with Cons.prems(3) ev have "schedule st rs evs = (st', rs')" by simp
    from Cons.IH [OF Cons.prems(1,2) this] show ?thesis .
  qed
qed

text \<open>
  Claim C1. Let a Link with the code exist, and let \<open>N\<close> requests \<open>GET /:code\<close> for that code
  run concurrently, their database calls interleaved in any order and at any times (each
  call of the database is atomic). If all \<open>N\<close> requests end redirected, the Link's \<open>clicks\<close> at
  the end is its initial value plus exactly \<open>N\<close>.
\<close>

theorem concurrent_resolves_count:
  assumes "findUnique st c = Some l"
    and "schedule st (replicate N (Lookup c)) evs = (st', rs')"
    and "list_all redirected rs'"
  shows "\<exists>l'. findUnique st' c = Some l' \<and> clicks l' = clicks l + int N"
proof -
  have all: "list_all (for_code c) (replicate N (Lookup c))"
    by (simp add: list_all_iff)
  have none: "filter redirected (replicate N (Lookup c)) = []"
    by (simp add: filter_empty_conv)
  from schedule_length [OF assms(2)] have "length rs' = N" by simp
  moreover from assms(3) have "filter redirected rs' = rs'"
    by (simp add: list_all_iff)
  ultimately have finished: "length (filter redirected rs') = N" by simp
  from schedule_count [OF all assms(1,2)] none finished show ?thesis by simp
qed

theorem concurrent_resolves_count_witness:
  "findUnique example_store ''abc123'' = Some example_link \<and>
   schedule example_store (replicate 2 (Lookup ''abc123'')) lost_update_events =
     (\<lparr>links = [example_link\<lparr>clicks := 6, lastClicked := Some 13, updatedAt := 13\<rparr>], next_id = 1\<rparr>,
      [Done (Redirect ''https://example.com'' 302), Done (Redirect ''https://example.com'' 302)]) \<and>
   list_all redirected
     [Done (Redirect ''https://example.com'' 302), Done (Redirect ''https://example.com'' 302)] \<and>
   (\<exists>l'. findUnique
       \<lparr>links = [example_link\<lparr>clicks := 6, lastClicked := Some 13, updatedAt := 13\<rparr>], next_id = 1\<rparr>
       ''abc123'' = Some l' \<and> clicks l' = clicks example_link + 2)"
proof -
  have found: "findUnique example_store ''abc123'' = Some example_link"
    by code_simp
  have ran: "schedule example_store (replicate 2 (Lookup ''abc123'')) lost_update_events =
     (\<lparr>links = [example_link\<lparr>clicks := 6, lastClicked := Some 13, updatedAt := 13\<rparr>], next_id = 1\<rparr>,
      [Done (Redirect ''https://example.com'' 302), Done (Redirect ''https://example.com'' 302)])"
    by code_simp
  have ok: "list_all redirected
     [Done (Redirect ''https://example.com'' 302), Done (Redirect ''https://example.com'' 302)]"
    by simp
  from concurrent_resolves_count [OF found ran ok] found ran ok
  show ?thesis by simp
qed

subsection \<open>Invariants of the store\<close>

text \<open>
  Starting from the empty store, every sequence of requests keeps the codes well-formed
  and pairwise distinct: the uniqueness constraint is never put to the test by requests
  that run one after the other.
\<close>

lemma POST_created_valid:
  assumes "unit_interval rnd" and "POST parse rnd st now b = (Json_link l status, st')"
  shows "isValidCode (code l)"
proof -
  from assms(2) obtain t c where dc: "determine_code rnd st (customCode b) = Inr (Some c)"
    and l: "store_create st now c t = Some (l, st')"
    by (auto simp: POST_def split: option.splits if_splits sum.splits
        dest: determine_code_Inl)
  from l have "code l = c"
    by (auto simp: store_create_def Let_def split: if_splits)
  with determine_code_valid [OF assms(1) dc] show ?thesis by simp
qed

lemma map_code_click:
  "map code (map (\<lambda>l. if code l = c then record_click now l else l) xs) = map code xs"
  by (induction xs) (simp_all add: code_record_click)

lemma apply_op_invariant:
  assumes "random_ok x" and "apply_op parse st x = (r, st')"
    and "codes_valid st" and "distinct (map code (links st))"
  shows "codes_valid st' \<and> distinct (map code (links st'))"
proof (cases x)
  case (Create rnd now b)
  with assms(1,2) have ui: "unit_interval rnd" and post: "POST parse rnd st now b = (r, st')"
    by simp_all
  from POST_cases [OF post] show ?thesis
  proof
    assume "st' = st" with assms(3,4) show ?thesis by simp
  next
    assume "\<exists>l. r = Json_link l 201 \<and> findUnique st (code l) = None \<and>
       st' = st\<lparr>links := links st @ [l], next_id := Suc (next_id st)\<rparr>"
    then obtain l where l: "r = Json_link l 201" "findUnique st (code l) = None"
      "st' = st\<lparr>links := links st @ [l], next_id := Suc (next_id st)\<rparr>" by blast
    from POST_created_valid [OF ui post [unfolded l(1)]] have "isValidCode (code l)" .
    moreover from l(2) have "code l \<notin> set (map code (links st))"
      by (auto simp: findUnique_def find_None_iff)
    ultimately show ?thesis
      using assms(3,4) l(3) by (simp add: codes_valid_def)
  qed
next
  case (Resolve now c)
  with assms(2) have "st' = st \<or>
      st' = st\<lparr>links := map (\<lambda>l. if code l = c then record_click now l else l) (links st)\<rparr>"
    by (auto simp: GET_code_def GET_code_find_def GET_code_update_def store_update_def
        split: option.splits if_splits)
  moreover have "map code (map (\<lambda>l. if code l = c then record_click now l else l) (links st)) =
      map code (links st)"
    by (rule map_code_click)
  moreover have "list_all (\<lambda>l. isValidCode (code l))
      (map (\<lambda>l. if code l = c then record_click now l else l) (links st))"
    using assms(3) by (auto simp: codes_valid_def list_all_iff code_record_click)
  ultimately show ?thesis
    using assms(3,4) by (auto simp: codes_valid_def simp del: map_map)
next
  case (Get c)
  with assms(2,3,4) show ?thesis
    by (auto simp: GET_link_def split: option.splits)
next
  case (Delete c)
  with assms(2) have "st' = st \<or> st' = st\<lparr>links := filter (\<lambda>l. code l \<noteq> c) (links st)\<rparr>"
    by (auto simp: DELETE_link_def store_delete_def split: if_splits)
  with assms(3,4) show ?thesis
    by (auto simp: codes_valid_def list_all_iff distinct_map_filter)
qed

lemma run_invariant:
  "list_all random_ok xs \<Longrightarrow> run parse st xs = (rs, st') \<Longrightarrow>
   codes_valid st \<Longrightarrow> distinct (map code (links st)) \<Longrightarrow>
   codes_valid st' \<and> distinct (map code (links st'))"
proof (induction xs arbitrary: st rs st')
  case Nil
  then show ?case by simp
next
  case (Cons x xs)
  obtain r st1 where step: "apply_op parse st x = (r, st1)" by (cases "apply_op parse st x")
  obtain rs1 st2 where rest: "run parse st1 xs = (rs1, st2)" by (cases "run parse st1 xs")
  from Cons.prems(2) step rest have eq: "st' = st2" by simp
  from Cons.prems(1) have x: "random_ok x" and xs: "list_all random_ok xs" by simp_all
  from apply_op_invariant [OF x step Cons.prems(3,4)]
  have "codes_valid st1" and "distinct (map code (links st1))" by simp_all
  from Cons.IH [OF xs rest this] eq show ?case by simp
qed

lemma empty_store_invariant: "codes_valid empty_store \<and> distinct (map code (links empty_store))"
  by (simp add: codes_valid_def empty_store_def)

end
